theory Spec2Isabelle
  imports Main "HOL-Library.Sublist" "HOL-Library.AList"
begin

section \<open>Strings as Python handles them\<close>

text \<open>
  Python's \<open>str\<close> operations used by \<open>src/cli.py\<close> and
  \<open>src/monitors/blacklist_monitor.py\<close>: \<open>strip\<close>, \<open>lower\<close>, \<open>in\<close>,
  \<open>split\<close>, \<open>startswith\<close> and \<open>join\<close>. Characters are Isabelle's 8-bit \<open>char\<close>;
  \<open>is_space\<close> and \<open>lower_char\<close> are \<open>str.isspace\<close> and \<open>str.lower\<close> on the ASCII range,
  and every other character is neither whitespace nor changed by \<open>lower\<close>.
\<close>

definition is_space :: "char \<Rightarrow> bool" where
  "is_space c = (of_char c \<in> {9, 10, 11, 12, 13, 28, 29, 30, 31, 32 :: nat})"

definition lower_char :: "char \<Rightarrow> char" where
  "lower_char c = (let n = of_char c :: nat in if 65 \<le> n \<and> n \<le> 90 then char_of (n + 32) else c)"

definition lower :: "string \<Rightarrow> string" where
  "lower s = map lower_char s"

definition strip :: "string \<Rightarrow> string" where
  "strip s = rev (dropWhile is_space (rev (dropWhile is_space s)))"

text \<open>\<open>sep in s\<close>: \<open>sep\<close> occurs in \<open>s\<close> as a contiguous substring.\<close>

fun contains :: "string \<Rightarrow> string \<Rightarrow> bool" where
  "contains sep [] = (sep = [])"
| "contains sep (c # cs) = (prefix sep (c # cs) \<or> contains sep cs)"

text \<open>
  \<open>s.split(sep)\<close> scans \<open>s\<close> from the left and cuts at every occurrence of \<open>sep\<close> that
  does not overlap the previous cut; \<open>acc\<close> is the current piece, reversed. Python raises
  \<open>ValueError\<close> on an empty separator: every separator of the source is a non-empty literal,
  and the model never cuts on an empty one.
\<close>

function split_aux :: "string \<Rightarrow> string \<Rightarrow> string \<Rightarrow> string list" where
  "split_aux sep acc [] = [rev acc]"
| "split_aux sep acc (c # cs) =
     (if sep \<noteq> [] \<and> prefix sep (c # cs)
      then rev acc # split_aux sep [] (drop (length sep) (c # cs))
      else split_aux sep (c # acc) cs)"
  by pat_completeness auto
termination
  by (relation "measure (\<lambda>(sep, acc, s). length s)") auto

definition split_str :: "string \<Rightarrow> string \<Rightarrow> string list" where
  "split_str sep s = split_aux sep [] s"

section \<open>Target selection (\<open>src/cli.py\<close>)\<close>

text \<open>
  \<open>clean_domain\<close>: drop the scheme (the piece after the first \<open>://\<close>), keep what is before the
  first \<open>/\<close> and then before the first \<open>?\<close>, drop a port, trim and lowercase. The two indexed
  reads \<open>[1]\<close> and \<open>[0]\<close> are in range on every input (\<open>split_str_second\<close>,
  \<open>split_str_nonempty\<close> below), so the function raises on no string.
\<close>

definition clean_domain :: "string \<Rightarrow> string" where
  "clean_domain raw_domain =
     (let r1 = (if contains ''://'' raw_domain then split_str ''://'' raw_domain ! 1 else raw_domain);
          r2 = hd (split_str ''?'' (hd (split_str ''/'' r1)));
          r3 = (if contains '':'' r2 then hd (split_str '':'' r2) else r2)
      in lower (strip r3))"


subsection \<open>Facts about the string operations\<close>

lemma of_char_lower_char:
  "(of_char (lower_char c) :: nat) =
     (if 65 \<le> (of_char c :: nat) \<and> (of_char c :: nat) \<le> 90 then of_char c + 32 else of_char c)"
  by (simp add: lower_char_def Let_def)

lemma lower_char_idem: "lower_char (lower_char c) = lower_char c"
proof -
  have "(of_char (lower_char (lower_char c)) :: nat) = of_char (lower_char c)"
    by (simp add: of_char_lower_char)
  then show ?thesis by (simp only: of_char_eq_iff)
qed

lemma is_space_lower_char: "is_space (lower_char c) = is_space c"
  by (simp add: is_space_def of_char_lower_char)

lemma lower_char_eq_sep:
  assumes "(of_char d :: nat) < 65"
  shows "lower_char c = d \<longleftrightarrow> c = d"
proof
  assume h: "lower_char c = d"
  have "(of_char (lower_char c) :: nat) < 65" using assms h by simp
  then have "\<not> (65 \<le> (of_char c :: nat) \<and> (of_char c :: nat) \<le> 90)"
    by (auto simp: of_char_lower_char)
  then have "lower_char c = c" unfolding lower_char_def Let_def by (rule if_not_P)
  with h show "c = d" by simp
next
  assume e: "c = d"
  with assms have "(of_char c :: nat) < 65" by simp
  then have "lower_char c = c" by (simp add: lower_char_def Let_def)
  with e show "lower_char c = d" by simp
qed

lemma lower_idem: "lower (lower s) = lower s"
  by (simp add: lower_def lower_char_idem)

lemma strip_lower: "strip (lower s) = lower (strip s)"
proof -
  have c: "is_space \<circ> lower_char = is_space" by (rule ext) (simp add: is_space_lower_char)
  show ?thesis
    by (simp add: strip_def lower_def dropWhile_map rev_map c)
qed

lemma strip_prefix: "\<exists>w. dropWhile is_space s = strip s @ w"
proof -
  let ?v = "dropWhile is_space s"
  have "strip s @ rev (takeWhile is_space (rev ?v)) =
          rev (takeWhile is_space (rev ?v) @ dropWhile is_space (rev ?v))"
    by (simp only: strip_def rev_append)
  also have "\<dots> = rev (rev ?v)" by (simp only: takeWhile_dropWhile_id)
  also have "\<dots> = ?v" by simp
  finally have "?v = strip s @ rev (takeWhile is_space (rev ?v))" by simp
  then show ?thesis by blast
qed

lemma strip_idem: "strip (strip s) = strip s"
proof -
  let ?v = "dropWhile is_space s"
  let ?u = "strip s"
  have a: "dropWhile is_space ?u = ?u"
  proof (cases "?u = []")
    case True
    then show ?thesis by simp
  next
    case False
    obtain w where w: "?v = ?u @ w" using strip_prefix by blast
    with False have "?v \<noteq> []" by simp
    then have "\<not> is_space (hd ?v)" by (rule hd_dropWhile)
    moreover have "hd ?v = hd ?u" using w False by (metis hd_append2)
    ultimately show ?thesis by (simp add: dropWhile_eq_self_iff)
  qed
  have "strip ?u = rev (dropWhile is_space (rev (dropWhile is_space ?u)))" by (simp add: strip_def)
  also have "\<dots> = rev (dropWhile is_space (rev ?u))" by (simp only: a)
  also have "\<dots> = ?u" by (simp add: strip_def)
  finally show ?thesis .
qed

lemma set_strip: "set (strip s) \<subseteq> set s"
proof -
  have "set (strip s) \<subseteq> set (dropWhile is_space s)"
    unfolding strip_def using set_dropWhileD by fastforce
  also have "\<dots> \<subseteq> set s" using set_dropWhileD by fastforce
  finally show ?thesis .
qed

lemma split_aux_nonempty: "split_aux sep acc s \<noteq> []"
  by (induction sep acc s rule: split_aux.induct) auto

lemma split_aux_absent: "c \<notin> set s \<Longrightarrow> split_aux [c] acc s = [rev acc @ s]"
  by (induction s arbitrary: acc) auto

lemma hd_split_aux_set: "set (hd (split_aux sep acc s)) \<subseteq> set acc \<union> set s"
  by (induction sep acc s rule: split_aux.induct) auto

lemma hd_split_aux_free: "c \<notin> set acc \<Longrightarrow> c \<notin> set (hd (split_aux [c] acc s))"
  by (induction s arbitrary: acc) auto

lemma contains_char: "contains [c] s \<longleftrightarrow> c \<in> set s"
  by (induction s) auto

lemma contains_hd: "contains (c # sep) s \<Longrightarrow> c \<in> set s"
  by (induction s) (auto simp: prefix_def)

lemma contains_split_aux: "sep \<noteq> [] \<Longrightarrow> contains sep s \<Longrightarrow> 1 < length (split_aux sep acc s)"
proof (induction sep acc s rule: split_aux.induct)
  case (1 sep acc)
  then show ?case by simp
next
  case (2 sep acc c cs)
  then show ?case
    using split_aux_nonempty [of sep "[]" "drop (length sep) (c # cs)"]
    by (auto simp: Suc_lessI)
qed

lemma split_str_nonempty: "split_str sep s \<noteq> []"
  by (simp add: split_str_def split_aux_nonempty)

lemma split_str_second: "sep \<noteq> [] \<Longrightarrow> contains sep s \<Longrightarrow> 1 < length (split_str sep s)"
  using contains_split_aux [of sep s "[]"] by (simp add: split_str_def)

lemma split_str_absent: "c \<notin> set s \<Longrightarrow> split_str [c] s = [s]"
  by (simp add: split_str_def split_aux_absent)

lemma hd_split_str_set: "set (hd (split_str sep s)) \<subseteq> set s"
  using hd_split_aux_set [of sep "[]" s] by (simp add: split_str_def)

lemma hd_split_str_free: "c \<notin> set (hd (split_str [c] s))"
  using hd_split_aux_free [of c "[]" s] by (simp add: split_str_def)

subsection \<open>Cleaning is idempotent\<close>

text \<open>The shape of a cleaned hostname: no path, query or port separator, trimmed, lowercase.\<close>

definition clean :: "string \<Rightarrow> bool" where
  "clean s = (CHR ''/'' \<notin> set s \<and> CHR ''?'' \<notin> set s \<and> CHR '':'' \<notin> set s \<and> strip s = s \<and> lower s = s)"

lemma clean_domain_clean: "clean (clean_domain s)"
proof -
  define r1 where "r1 = (if contains ''://'' s then split_str ''://'' s ! 1 else s)"
  define h where "h = hd (split_str ''/'' r1)"
  define r2 where "r2 = hd (split_str ''?'' h)"
  define r3 where "r3 = (if contains '':'' r2 then hd (split_str '':'' r2) else r2)"
  have cd: "clean_domain s = lower (strip r3)"
    by (simp add: clean_domain_def r1_def h_def r2_def r3_def Let_def)
  have h1: "CHR ''/'' \<notin> set h" unfolding h_def by (rule hd_split_str_free)
  have r2a: "CHR ''?'' \<notin> set r2" unfolding r2_def by (rule hd_split_str_free)
  have r2b: "CHR ''/'' \<notin> set r2" using h1 hd_split_str_set [of "''?''" h] by (auto simp: r2_def)
  have r3sub: "set r3 \<subseteq> set r2" using hd_split_str_set [of "'':''" r2] by (auto simp: r3_def)
  have r3c: "CHR '':'' \<notin> set r3"
    using hd_split_str_free [of "CHR '':''" r2] by (auto simp: r3_def contains_char)
  have r3a: "CHR ''?'' \<notin> set r3" and r3b: "CHR ''/'' \<notin> set r3" using r3sub r2a r2b by auto
  have sub: "set (strip r3) \<subseteq> set r3" by (rule set_strip)
  have low: "d \<notin> set (lower (strip r3))" if d: "(of_char d :: nat) < 65" "d \<notin> set r3" for d
  proof
    assume "d \<in> set (lower (strip r3))"
    then obtain x where x: "x \<in> set (strip r3)" "lower_char x = d" by (auto simp: lower_def)
    from x(2) d(1) have "x = d" by (simp add: lower_char_eq_sep)
    with x(1) sub d(2) show False by auto
  qed
  have "strip (lower (strip r3)) = lower (strip r3)"
    by (simp add: strip_lower strip_idem)
  then show ?thesis
    unfolding clean_def cd using low [OF _ r3a] low [OF _ r3b] low [OF _ r3c]
    by (simp add: lower_idem)
qed

lemma clean_domain_fixed: "clean s \<Longrightarrow> clean_domain s = s"
proof -
  assume c: "clean s"
  then have a: "CHR '':'' \<notin> set s" and b: "CHR ''/'' \<notin> set s" and q: "CHR ''?'' \<notin> set s"
    by (simp_all add: clean_def)
  have n1: "\<not> contains ''://'' s" using a contains_hd by blast
  have n2: "\<not> contains '':'' s" using a by (simp add: contains_char)
  show ?thesis using c
    by (simp add: clean_domain_def n1 n2 split_str_absent [OF b] split_str_absent [OF q] clean_def)
qed

text \<open>
  Claim C9. \<open>clean_domain\<close> is idempotent: for every input string \<open>s\<close>, cleaning the
  cleaned hostname gives the cleaned hostname again.
\<close>

theorem clean_domain_idempotent: "clean_domain (clean_domain s) = clean_domain s"
  by (rule clean_domain_fixed) (rule clean_domain_clean)

theorem clean_domain_idempotent_witness:
  "clean_domain (clean_domain ''  HTTPS://www.Example.com:8443/status?x=1 '') =
     clean_domain ''  HTTPS://www.Example.com:8443/status?x=1 '' \<and>
   clean_domain ''  HTTPS://www.Example.com:8443/status?x=1 '' = ''www.example.com''"
proof (rule conjI)
  show "clean_domain (clean_domain ''  HTTPS://www.Example.com:8443/status?x=1 '') =
     clean_domain ''  HTTPS://www.Example.com:8443/status?x=1 ''"
    by (rule clean_domain_idempotent)
  show "clean_domain ''  HTTPS://www.Example.com:8443/status?x=1 '' = ''www.example.com''"
    by code_simp
qed

section \<open>Resilient resolver (\<open>src/utils/dns_helpers.py\<close>)\<close>

text \<open>
  Exceptions are values. \<open>NXDOMAIN\<close> and \<open>NoAnswer\<close> are the two classes of
  \<open>dns.resolver\<close> that \<open>RobustResolver.resolve\<close> tests for; each carries its text;
  \<open>Failure\<close> is any other exception with its text; \<open>DoHNoData\<close> is the exception \<open>_resolve_doh\<close> builds itself,
  \<open>NoARecords\<close> and \<open>ResolveFailed\<close> are those of \<open>get_ip\<close>; \<open>AttributeError\<close> is
  the lookup of a method a class does not define (class, attribute).
\<close>

datatype exn =
    NXDOMAIN string
  | NoAnswer string
  | Failure string
  | DoHNoData "int option"
  | NoARecords
  | ResolveFailed string exn
  | AttributeError string string

text \<open>The JSON body of a DNS-over-HTTPS reply: \<open>Status\<close> and the \<open>type\<close> and \<open>data\<close> of
  each entry of \<open>Answer\<close>, either key possibly missing.\<close>

record doh_json =
  Status :: "int option"
  Answer :: "(int \<times> string) list option"

text \<open>What goes over the network is recorded: one event per query sent.\<close>

datatype event =
    DnsQuery "string list" string string
  | DohRequest string string

text \<open>
  The network is a parameter: \<open>shuffle\<close> is the permutation \<open>random.shuffle\<close> picks,
  \<open>dns_query\<close> is dnspython's \<open>Resolver.resolve\<close> with the given nameservers,
  \<open>http_get\<close> is the HTTPS request to the DoH endpoint including \<open>raise_for_status\<close> and
  JSON decoding (\<open>Inl\<close> the text of what it raised), \<open>system_query\<close> is the system
  resolver the blacklist monitor uses.
\<close>

record net =
  shuffle :: "string list \<Rightarrow> string list"
  dns_query :: "string list \<Rightarrow> string \<Rightarrow> string \<Rightarrow> exn + string list"
  http_get :: "string \<Rightarrow> string \<Rightarrow> string + doh_json"
  system_query :: "string \<Rightarrow> string \<Rightarrow> exn + string list"

definition resolvers :: "string list" where
  "resolvers = [''1.1.1.1'', ''1.0.0.1'', ''8.8.8.8'', ''8.8.4.4'', ''9.9.9.9'',
                ''149.112.112.112'', ''208.67.222.222'', ''64.6.64.6'']"

definition resolve_doh :: "net \<Rightarrow> string \<Rightarrow> string \<Rightarrow> (exn + string list) \<times> event list" where
  "resolve_doh n qname rdtype =
     (case http_get n qname rdtype of
        Inl msg \<Rightarrow> (Inl (Failure msg), [DohRequest qname rdtype])
      | Inr data \<Rightarrow>
          (let answers =
                 (case Answer data of
                    Some ans \<Rightarrow>
                      if Status data = Some 0
                      then map snd (filter (\<lambda>a. fst a = 1) ans)
                      else []
                  | None \<Rightarrow> [])
           in if answers \<noteq> [] then (Inr answers, [DohRequest qname rdtype])
              else (Inl (DoHNoData (Status data)), [DohRequest qname rdtype])))"

definition authoritative_negative :: "exn \<Rightarrow> bool" where
  "authoritative_negative e = (case e of NXDOMAIN _ \<Rightarrow> True | NoAnswer _ \<Rightarrow> True | _ \<Rightarrow> False)"

definition resolve :: "net \<Rightarrow> string \<Rightarrow> string \<Rightarrow> (exn + string list) \<times> event list" where
  "resolve n qname rdtype =
     (let current_resolvers = shuffle n resolvers
      in case dns_query n current_resolvers qname rdtype of
           Inr answers \<Rightarrow> (Inr answers, [DnsQuery current_resolvers qname rdtype])
         | Inl e \<Rightarrow>
             if authoritative_negative e
             then (Inl e, [DnsQuery current_resolvers qname rdtype])
             else (let (r, evs) = resolve_doh n qname rdtype
                   in (r, DnsQuery current_resolvers qname rdtype # evs)))"

definition get_ip :: "net \<Rightarrow> string \<Rightarrow> (exn + string) \<times> event list" where
  "get_ip n domain =
     (case resolve n domain ''A'' of
        (Inr (rdata # _), evs) \<Rightarrow> (Inr rdata, evs)
      | (Inr [], evs) \<Rightarrow> (Inl (ResolveFailed domain NoARecords), evs)
      | (Inl e, evs) \<Rightarrow> (Inl (ResolveFailed domain e), evs))"

fun is_doh :: "event \<Rightarrow> bool" where
  "is_doh (DohRequest _ _) = True"
| "is_doh _ = False"

definition doh_calls :: "event list \<Rightarrow> event list" where
  "doh_calls evs = filter is_doh evs"

lemma resolve_doh_events: "snd (resolve_doh n q t) = [DohRequest q t]"
  by (simp add: resolve_doh_def Let_def split: sum.splits)

lemma resolve_doh_error:
  "fst (resolve_doh n q t) = Inl e \<Longrightarrow> \<not> authoritative_negative e"
  by (auto simp: resolve_doh_def Let_def authoritative_negative_def split: sum.splits if_splits)

text \<open>
  Claim C3. For every query name and record type: when the pool attempt fails with an
  authoritative negative (NXDOMAIN or no such record), \<open>resolve\<close> raises that error and
  makes no DNS-over-HTTPS request; when the pool attempt fails for any other reason,
  \<open>resolve\<close> makes exactly one DNS-over-HTTPS request, for the same query, and if that
  fails too the error raised is the fallback's, which is never an authoritative negative.
\<close>

theorem resolve_fallback:
  "dns_query n (shuffle n resolvers) q t = Inl e \<Longrightarrow>
     (if authoritative_negative e
      then fst (resolve n q t) = Inl e \<and> doh_calls (snd (resolve n q t)) = []
      else fst (resolve n q t) = fst (resolve_doh n q t) \<and>
           doh_calls (snd (resolve n q t)) = [DohRequest q t] \<and>
           (\<forall>e'. fst (resolve_doh n q t) = Inl e' \<longrightarrow>
                 fst (resolve n q t) = Inl e' \<and> \<not> authoritative_negative e'))"
  using resolve_doh_events [of n q t] resolve_doh_error [of n q t]
  by (auto simp: resolve_def Let_def doh_calls_def split: prod.splits)

definition net_nx :: net where
  "net_nx = \<lparr>shuffle = rev, dns_query = (\<lambda>ns q t. Inl (NXDOMAIN ''no such name'')),
             http_get = (\<lambda>q t. Inl ''unreachable''), system_query = (\<lambda>q t. Inl (NXDOMAIN ''no such name''))\<rparr>"

definition net_timeout :: net where
  "net_timeout = \<lparr>shuffle = rev, dns_query = (\<lambda>ns q t. Inl (Failure ''timeout'')),
             http_get = (\<lambda>q t. Inl ''unreachable''), system_query = (\<lambda>q t. Inl (NXDOMAIN ''no such name''))\<rparr>"

theorem resolve_fallback_witness:
  "dns_query net_nx (shuffle net_nx resolvers) ''a.com'' ''A'' = Inl (NXDOMAIN ''no such name'') \<and>
   authoritative_negative (NXDOMAIN ''no such name'') \<and>
   fst (resolve net_nx ''a.com'' ''A'') = Inl (NXDOMAIN ''no such name'') \<and>
   doh_calls (snd (resolve net_nx ''a.com'' ''A'')) = [] \<and>
   dns_query net_timeout (shuffle net_timeout resolvers) ''a.com'' ''A'' = Inl (Failure ''timeout'') \<and>
   \<not> authoritative_negative (Failure ''timeout'') \<and>
   doh_calls (snd (resolve net_timeout ''a.com'' ''A'')) = [DohRequest ''a.com'' ''A''] \<and>
   fst (resolve net_timeout ''a.com'' ''A'') = Inl (Failure ''unreachable'')"
proof -
  have a: "dns_query net_nx (shuffle net_nx resolvers) ''a.com'' ''A'' = Inl (NXDOMAIN ''no such name'')"
    by (simp add: net_nx_def)
  have b: "dns_query net_timeout (shuffle net_timeout resolvers) ''a.com'' ''A'' = Inl (Failure ''timeout'')"
    by (simp add: net_timeout_def)
  have c: "authoritative_negative (NXDOMAIN ''no such name'')" "\<not> authoritative_negative (Failure ''timeout'')"
    by (simp_all add: authoritative_negative_def)
  have d: "fst (resolve_doh net_timeout ''a.com'' ''A'') = Inl (Failure ''unreachable'')"
    by (simp add: resolve_doh_def net_timeout_def)
  from resolve_fallback [OF a] c(1)
  have 1: "fst (resolve net_nx ''a.com'' ''A'') = Inl (NXDOMAIN ''no such name'') \<and>
           doh_calls (snd (resolve net_nx ''a.com'' ''A'')) = []" by simp
  from resolve_fallback [OF b] c(2) d
  have 2: "doh_calls (snd (resolve net_timeout ''a.com'' ''A'')) = [DohRequest ''a.com'' ''A''] \<and>
           fst (resolve net_timeout ''a.com'' ''A'') = Inl (Failure ''unreachable'')" by simp
  from a b c 1 2 show ?thesis by blast
qed

section \<open>Result aggregator (\<open>main\<close> in \<open>src/cli.py\<close>)\<close>

text \<open>
  A Check Result is the dictionary an adapter returns, with the keys the aggregator and the
  alert manager read. \<open>domain\<close> and \<open>monitor\<close> are read with \<open>[]\<close> and are always
  present in the data model; \<open>status\<close>, \<open>message\<close>, \<open>details\<close> and \<open>alert_count\<close> are
  read with \<open>get\<close> and may be missing.
\<close>

datatype details_value =
    DetailList "string list"
  | DetailStr string
  | DetailDict "(string \<times> string) list"

record check_result =
  domain :: string
  monitor :: string
  status :: "string option"
  message :: "string option"
  details :: "details_value option"
  alert_count :: "int option"

record config =
  domain_enabled :: bool
  ssl_enabled :: bool
  dns_enabled :: bool
  security_enabled :: bool
  blacklist_enabled :: bool

record monitors =
  check_domain :: "string \<Rightarrow> exn + check_result"
  check_ssl :: "string \<Rightarrow> exn + check_result"
  check_dns :: "string \<Rightarrow> exn + check_result"
  check_security :: "string \<Rightarrow> exn + check_result"
  check_blacklist :: "string \<Rightarrow> exn + check_result"

text \<open>
  The loop over the configured domains threads \<open>all_results\<close>. A call of an adapter is
  recorded in \<open>invoked\<close> (monitor, target). An exception that leaves the loop is kept in
  \<open>raised\<close>: nothing runs after it, as \<open>main\<close> is left at that point.
\<close>

record scan =
  all_results :: "check_result list"
  invoked :: "(string \<times> string) list"
  raised :: "exn option"

definition get_parent_domain :: "string \<Rightarrow> string" where
  "get_parent_domain d =
     (let parts = split_str ''.'' d
      in if length parts > 2
         then parts ! (length parts - 2) @ ''.'' @ parts ! (length parts - 1)
         else d)"

definition get_connectable_hostname :: "net \<Rightarrow> string \<Rightarrow> string option" where
  "get_connectable_hostname n d =
     (case fst (get_ip n d) of
        Inr _ \<Rightarrow> Some d
      | Inl _ \<Rightarrow>
          (case fst (get_ip n (''www.'' @ d)) of
             Inr _ \<Rightarrow> Some (''www.'' @ d)
           | Inl _ \<Rightarrow> None))"

definition get_message :: "check_result \<Rightarrow> string" where
  "get_message res = (case message res of Some m \<Rightarrow> m | None \<Rightarrow> [])"

definition dns_failed :: "string \<Rightarrow> string \<Rightarrow> check_result" where
  "dns_failed d m =
     \<lparr>domain = d, monitor = m, status = Some ''critical'',
      message = Some ''DNS Resolution Failed'',
      details = Some (DetailDict [(''error'', ''Could not resolve hostname or www subdomain'')]),
      alert_count = None\<rparr>"

definition parent_labelled :: "string \<Rightarrow> string \<Rightarrow> check_result \<Rightarrow> check_result" where
  "parent_labelled d check_target res =
     (let res1 = res\<lparr>domain := d\<rparr>
      in if check_target \<noteq> d
         then res1\<lparr>message := Some (''(Parent: '' @ check_target @ '') '' @ get_message res1)\<rparr>
         else res1)"

definition checked_labelled :: "string \<Rightarrow> string \<Rightarrow> check_result \<Rightarrow> check_result" where
  "checked_labelled d connectable_host res =
     (let res1 = (if connectable_host \<noteq> d
                  then res\<lparr>message := Some (''(Checked '' @ connectable_host @ '') '' @ get_message res)\<rparr>
                  else res)
      in res1\<lparr>domain := d\<rparr>)"

text \<open>
  The five blocks of the loop body. Only the call of the WHOIS adapter stands in a
  \<open>try\<close>: its handler logs the exception and appends nothing. The other four calls are
  unguarded. \<open>if connectable_host:\<close> is false for \<open>None\<close> and for the empty string.
\<close>

definition domain_step :: "config \<Rightarrow> monitors \<Rightarrow> string \<Rightarrow> string \<Rightarrow> scan \<Rightarrow> scan" where
  "domain_step cfg mons d parent st =
     (if raised st \<noteq> None \<or> \<not> domain_enabled cfg then st
      else case check_domain mons parent of
             Inr res \<Rightarrow>
               st\<lparr>all_results := all_results st @ [parent_labelled d parent res],
                  invoked := invoked st @ [(''domain'', parent)]\<rparr>
           | Inl e \<Rightarrow> st\<lparr>invoked := invoked st @ [(''domain'', parent)]\<rparr>)"

definition ssl_step :: "config \<Rightarrow> monitors \<Rightarrow> string \<Rightarrow> string option \<Rightarrow> scan \<Rightarrow> scan" where
  "ssl_step cfg mons d connectable_host st =
     (if raised st \<noteq> None \<or> \<not> ssl_enabled cfg then st
      else case connectable_host of
             None \<Rightarrow> st\<lparr>all_results := all_results st @ [dns_failed d ''ssl'']\<rparr>
           | Some h \<Rightarrow>
               if h = [] then st\<lparr>all_results := all_results st @ [dns_failed d ''ssl'']\<rparr>
               else case check_ssl mons h of
                      Inr res \<Rightarrow>
                        st\<lparr>all_results := all_results st @ [checked_labelled d h res],
                           invoked := invoked st @ [(''ssl'', h)]\<rparr>
                    | Inl e \<Rightarrow> st\<lparr>invoked := invoked st @ [(''ssl'', h)], raised := Some e\<rparr>)"

definition dns_step :: "config \<Rightarrow> monitors \<Rightarrow> string \<Rightarrow> string \<Rightarrow> scan \<Rightarrow> scan" where
  "dns_step cfg mons d parent st =
     (if raised st \<noteq> None \<or> \<not> dns_enabled cfg then st
      else case check_dns mons parent of
             Inr res \<Rightarrow>
               st\<lparr>all_results := all_results st @ [parent_labelled d parent res],
                  invoked := invoked st @ [(''dns'', parent)]\<rparr>
           | Inl e \<Rightarrow> st\<lparr>invoked := invoked st @ [(''dns'', parent)], raised := Some e\<rparr>)"

definition security_step :: "config \<Rightarrow> monitors \<Rightarrow> string \<Rightarrow> string option \<Rightarrow> scan \<Rightarrow> scan" where
  "security_step cfg mons d connectable_host st =
     (if raised st \<noteq> None \<or> \<not> security_enabled cfg then st
      else case connectable_host of
             None \<Rightarrow> st\<lparr>all_results := all_results st @ [dns_failed d ''security'']\<rparr>
           | Some h \<Rightarrow>
               if h = [] then st\<lparr>all_results := all_results st @ [dns_failed d ''security'']\<rparr>
               else case check_security mons h of
                      Inr res \<Rightarrow>
                        st\<lparr>all_results := all_results st @ [checked_labelled d h res],
                           invoked := invoked st @ [(''security'', h)]\<rparr>
                    | Inl e \<Rightarrow> st\<lparr>invoked := invoked st @ [(''security'', h)], raised := Some e\<rparr>)"

definition blacklist_step :: "config \<Rightarrow> monitors \<Rightarrow> string \<Rightarrow> scan \<Rightarrow> scan" where
  "blacklist_step cfg mons d st =
     (if raised st \<noteq> None \<or> \<not> blacklist_enabled cfg then st
      else case check_blacklist mons d of
             Inr res \<Rightarrow>
               st\<lparr>all_results := all_results st @ [res\<lparr>domain := d\<rparr>],
                  invoked := invoked st @ [(''blacklist'', d)]\<rparr>
           | Inl e \<Rightarrow> st\<lparr>invoked := invoked st @ [(''blacklist'', d)], raised := Some e\<rparr>)"

definition scan_domain :: "config \<Rightarrow> net \<Rightarrow> monitors \<Rightarrow> string \<Rightarrow> scan \<Rightarrow> scan" where
  "scan_domain cfg n mons raw_domain st =
     (if raised st \<noteq> None then st
      else let d = clean_domain raw_domain;
               connectable_host = get_connectable_hostname n d;
               parent_domain = get_parent_domain d
           in blacklist_step cfg mons d
                (security_step cfg mons d connectable_host
                  (dns_step cfg mons d parent_domain
                    (ssl_step cfg mons d connectable_host
                      (domain_step cfg mons d parent_domain st)))))"

definition scan_from :: "config \<Rightarrow> net \<Rightarrow> monitors \<Rightarrow> string list \<Rightarrow> scan \<Rightarrow> scan" where
  "scan_from cfg n mons domains st = fold (scan_domain cfg n mons) domains st"

definition scan0 :: scan where
  "scan0 = \<lparr>all_results = [], invoked = [], raised = None\<rparr>"

definition main_loop :: "config \<Rightarrow> net \<Rightarrow> monitors \<Rightarrow> string list \<Rightarrow> scan" where
  "main_loop cfg n mons domains = scan_from cfg n mons domains scan0"

subsection \<open>A fault of the WHOIS adapter\<close>

text \<open>Two scans agree on the results, on the pending exception and on every adapter call
  but those of the WHOIS adapter.\<close>

definition same_outcome :: "scan \<Rightarrow> scan \<Rightarrow> bool" where
  "same_outcome st st' =
     (all_results st = all_results st' \<and> raised st = raised st' \<and>
      filter (\<lambda>c. fst c \<noteq> ''domain'') (invoked st) = filter (\<lambda>c. fst c \<noteq> ''domain'') (invoked st'))"

lemmas step_defs = domain_step_def ssl_step_def dns_step_def security_step_def blacklist_step_def

lemma same_outcome_ssl:
  "same_outcome st st' \<Longrightarrow> same_outcome (ssl_step cfg mons d c st) (ssl_step cfg mons d c st')"
  by (auto simp: same_outcome_def ssl_step_def split: option.splits sum.splits)

lemma same_outcome_dns:
  "same_outcome st st' \<Longrightarrow> same_outcome (dns_step cfg mons d p st) (dns_step cfg mons d p st')"
  by (auto simp: same_outcome_def dns_step_def split: option.splits sum.splits)

lemma same_outcome_security:
  "same_outcome st st' \<Longrightarrow> same_outcome (security_step cfg mons d c st) (security_step cfg mons d c st')"
  by (auto simp: same_outcome_def security_step_def split: option.splits sum.splits)

lemma same_outcome_blacklist:
  "same_outcome st st' \<Longrightarrow> same_outcome (blacklist_step cfg mons d st) (blacklist_step cfg mons d st')"
  by (auto simp: same_outcome_def blacklist_step_def split: option.splits sum.splits)

lemma same_outcome_domain:
  "same_outcome st st' \<Longrightarrow> same_outcome (domain_step cfg mons d p st) (domain_step cfg mons d p st')"
  by (auto simp: same_outcome_def domain_step_def split: option.splits sum.splits)

lemma same_outcome_scan_domain:
  assumes "same_outcome st st'"
  shows "same_outcome (scan_domain cfg n mons raw st) (scan_domain cfg n mons raw st')"
proof -
  have r: "raised st = raised st'" using assms by (simp add: same_outcome_def)
  show ?thesis
  proof (cases "raised st = None")
    case True
    with r show ?thesis
      by (simp add: scan_domain_def Let_def same_outcome_blacklist same_outcome_security
          same_outcome_dns same_outcome_ssl same_outcome_domain assms)
  next
    case False
    with r assms show ?thesis by (simp add: scan_domain_def)
  qed
qed

lemma same_outcome_scan_from:
  "same_outcome st st' \<Longrightarrow> same_outcome (scan_from cfg n mons ds st) (scan_from cfg n mons ds st')"
  unfolding scan_from_def
  by (induction ds arbitrary: st st') (simp_all add: same_outcome_scan_domain)

lemma domain_step_raises:
  "check_domain mons p = Inl e \<Longrightarrow>
   same_outcome (domain_step cfg mons d p st) (domain_step (cfg\<lparr>domain_enabled := False\<rparr>) mons d p st)"
  by (simp add: same_outcome_def domain_step_def)

lemma step_cfg_other:
  "ssl_step (cfg\<lparr>domain_enabled := b\<rparr>) = ssl_step cfg"
  "dns_step (cfg\<lparr>domain_enabled := b\<rparr>) = dns_step cfg"
  "security_step (cfg\<lparr>domain_enabled := b\<rparr>) = security_step cfg"
  "blacklist_step (cfg\<lparr>domain_enabled := b\<rparr>) = blacklist_step cfg"
  by (intro ext, simp add: step_defs)+

lemma scan_domain_raises:
  assumes "check_domain mons (get_parent_domain (clean_domain raw)) = Inl e"
  shows "same_outcome (scan_domain cfg n mons raw st) (scan_domain (cfg\<lparr>domain_enabled := False\<rparr>) n mons raw st)"
proof (cases "raised st = None")
  case True
  then show ?thesis
    by (simp add: scan_domain_def Let_def step_cfg_other same_outcome_blacklist same_outcome_security
        same_outcome_dns same_outcome_ssl domain_step_raises [OF assms])
next
  case False
  then show ?thesis by (simp add: scan_domain_def same_outcome_def)
qed

text \<open>
  Claim C1, as amended. An exception raised by the domain (WHOIS expiry) adapter is caught at
  the aggregator boundary and only logged: no Check Result is appended for it, and the cycle
  goes on exactly as if the domain monitor had been disabled for that one domain, so the
  remaining adapters of that domain and the remaining domains are invoked as without the
  fault.
\<close>

theorem domain_adapter_fault_isolated:
  "check_domain mons (get_parent_domain (clean_domain raw)) = Inl e \<Longrightarrow>
     same_outcome
       (scan_from cfg n mons (pre @ raw # post) st)
       (scan_from cfg n mons post
          (scan_domain (cfg\<lparr>domain_enabled := False\<rparr>) n mons raw (scan_from cfg n mons pre st)))"
proof -
  assume a: "check_domain mons (get_parent_domain (clean_domain raw)) = Inl e"
  have "scan_from cfg n mons (pre @ raw # post) st =
        scan_from cfg n mons post (scan_domain cfg n mons raw (scan_from cfg n mons pre st))"
    by (simp add: scan_from_def)
  then show ?thesis
    by (simp add: same_outcome_scan_from scan_domain_raises [OF a])
qed


subsection \<open>Sample configurations\<close>

definition cfg_all :: config where
  "cfg_all = \<lparr>domain_enabled = True, ssl_enabled = True, dns_enabled = True,
              security_enabled = True, blacklist_enabled = True\<rparr>"

definition net_ok :: net where
  "net_ok = \<lparr>shuffle = rev, dns_query = (\<lambda>ns q t. Inr [''192.0.2.7'']),
             http_get = (\<lambda>q t. Inl ''unreachable''), system_query = (\<lambda>q t. Inl (NXDOMAIN ''no such name''))\<rparr>"

definition ok_result :: "string \<Rightarrow> check_result" where
  "ok_result m = \<lparr>domain = [], monitor = m, status = Some ''ok'', message = None,
                  details = None, alert_count = None\<rparr>"

definition mons_whois_down :: monitors where
  "mons_whois_down =
     \<lparr>check_domain = (\<lambda>t. Inl (Failure ''whois down'')),
      check_ssl = (\<lambda>t. Inr (ok_result ''ssl'')),
      check_dns = (\<lambda>t. Inr (ok_result ''dns'')),
      check_security = (\<lambda>t. Inr (ok_result ''security'')),
      check_blacklist = (\<lambda>t. Inr (ok_result ''blacklist''))\<rparr>"

definition mons_tls_down :: monitors where
  "mons_tls_down = mons_whois_down\<lparr>check_ssl := (\<lambda>t. Inl (Failure ''bad hostname''))\<rparr>"

text \<open>
  Claim C1 fails as stated. With every monitor enabled and two domains, a WHOIS adapter that
  raises leaves no result with \<open>status = error\<close> behind, and a certificate adapter that
  raises ends the cycle: the results are empty, the DNS, security and blacklist adapters of
  the first domain and every adapter of the second domain are never invoked.
\<close>

theorem adapter_fault_counterexample:
  "check_domain mons_tls_down ''a.com'' = Inl (Failure ''whois down'') \<and>
   check_ssl mons_tls_down ''a.com'' = Inl (Failure ''bad hostname'') \<and>
   main_loop cfg_all net_ok mons_tls_down [''a.com'', ''b.com''] =
     \<lparr>all_results = [], invoked = [(''domain'', ''a.com''), (''ssl'', ''a.com'')],
      raised = Some (Failure ''bad hostname'')\<rparr>"
  by code_simp

theorem domain_adapter_fault_isolated_witness:
  "check_domain mons_whois_down (get_parent_domain (clean_domain ''a.com'')) = Inl (Failure ''whois down'') \<and>
   same_outcome
     (scan_from cfg_all net_ok mons_whois_down ([''b.com''] @ ''a.com'' # [''c.com'']) scan0)
     (scan_from cfg_all net_ok mons_whois_down [''c.com'']
        (scan_domain (cfg_all\<lparr>domain_enabled := False\<rparr>) net_ok mons_whois_down ''a.com''
           (scan_from cfg_all net_ok mons_whois_down [''b.com''] scan0))) \<and>
   map monitor (all_results (main_loop cfg_all net_ok mons_whois_down [''b.com'', ''a.com'', ''c.com''])) =
     [''ssl'', ''dns'', ''security'', ''blacklist'', ''ssl'', ''dns'', ''security'', ''blacklist'',
      ''ssl'', ''dns'', ''security'', ''blacklist'']"
proof -
  have a: "check_domain mons_whois_down (get_parent_domain (clean_domain ''a.com'')) = Inl (Failure ''whois down'')"
    by (simp add: mons_whois_down_def)
  have b: "map monitor (all_results (main_loop cfg_all net_ok mons_whois_down [''b.com'', ''a.com'', ''c.com''])) =
     [''ssl'', ''dns'', ''security'', ''blacklist'', ''ssl'', ''dns'', ''security'', ''blacklist'',
      ''ssl'', ''dns'', ''security'', ''blacklist'']"
    by code_simp
  from a domain_adapter_fault_isolated [OF a, of cfg_all net_ok "[''b.com'']" "[''c.com'']" scan0] b
  show ?thesis by blast
qed

subsection \<open>A domain that does not resolve\<close>
















section \<open>Rendering values into messages\<close>

text \<open>\<open>str\<close> of a non-negative and of any integer, in decimal, as an f-string renders it.\<close>

function str_nat :: "nat \<Rightarrow> string" where
  "str_nat n = (if n < 10 then [char_of (48 + n)] else str_nat (n div 10) @ [char_of (48 + n mod 10)])"
  by pat_completeness auto
termination
  by (relation "measure id") auto

definition str_int :: "int \<Rightarrow> string" where
  "str_int i = (if i < 0 then ''-'' @ str_nat (nat (- i)) else str_nat (nat i))"

fun join :: "string \<Rightarrow> string list \<Rightarrow> string" where
  "join sep [] = []"
| "join sep [x] = x"
| "join sep (x # y # ys) = x @ sep @ join sep (y # ys)"

fun exn_text :: "exn \<Rightarrow> string" where
  "exn_text (NXDOMAIN msg) = msg"
| "exn_text (NoAnswer msg) = msg"
| "exn_text (Failure msg) = msg"
| "exn_text (DoHNoData st) =
     ''DoH Refused or No Data: '' @ (case st of None \<Rightarrow> ''None'' | Some i \<Rightarrow> str_int i)"
| "exn_text NoARecords = ''No A records found''"
| "exn_text (ResolveFailed d e) = ''Failed to resolve IP for '' @ d @ '': '' @ exn_text e"
| "exn_text (AttributeError c a) = [CHR 0x27] @ c @ [CHR 0x27] @ '' object has no attribute '' @
                                   [CHR 0x27] @ a @ [CHR 0x27]"

section \<open>Blacklist monitor (\<open>src/monitors/blacklist_monitor.py\<close>)\<close>

text \<open>
  The dictionary \<open>check_blacklist\<close> returns. When the domain does not resolve it has only
  \<open>monitor\<close>, \<open>status\<close> and \<open>message\<close>. The field names carry a prefix where the Check
  Result already has a field of that name.
\<close>

record blacklist_result =
  bl_monitor :: string
  bl_status :: string
  bl_message :: string
  bl_ip :: "string option"
  listed_in :: "string list option"
  checked_rbls :: "nat option"

definition rbls :: "string list" where
  "rbls = [''zen.spamhaus.org'', ''bl.spamcop.net'', ''cbl.abuseat.org'', ''dnsbl.sorbs.net'',
           ''b.barracudacentral.org'', ''dnsbl-1.uceprotect.net'']"

text \<open>
  The inner loop over the answers of one RBL: the two filters skip an answer
  (\<open>continue\<close>), any other answer lists the RBL once.
\<close>

fun scan_answers :: "string \<Rightarrow> string list \<Rightarrow> string list \<Rightarrow> string list" where
  "scan_answers rbl [] listed = listed"
| "scan_answers rbl (result_ip # rest) listed =
     (if prefix ''127.255.255.'' result_ip then scan_answers rbl rest listed
      else if result_ip \<in> set [''127.0.0.10'', ''127.0.0.11''] then scan_answers rbl rest listed
      else if rbl \<notin> set listed then scan_answers rbl rest (listed @ [rbl])
      else scan_answers rbl rest listed)"

text \<open>
  The loop over the RBLs, with \<open>listed_in\<close> and \<open>errors\<close>. \<open>NXDOMAIN\<close> and
  \<open>NoAnswer\<close> mean not listed; any other exception is noted in \<open>errors\<close>.
\<close>

fun query_rbls ::
  "net \<Rightarrow> string \<Rightarrow> string list \<Rightarrow> string list \<times> string list \<Rightarrow> string list \<times> string list" where
  "query_rbls n reversed_ip [] acc = acc"
| "query_rbls n reversed_ip (rbl # rest) (listed, errors) =
     (case system_query n (reversed_ip @ ''.'' @ rbl) ''A'' of
        Inr answers \<Rightarrow> query_rbls n reversed_ip rest (scan_answers rbl answers listed, errors)
      | Inl e \<Rightarrow>
          if authoritative_negative e then query_rbls n reversed_ip rest (listed, errors)
          else query_rbls n reversed_ip rest (listed, errors @ [rbl @ '': '' @ exn_text e]))"

definition reverse_ip :: "string \<Rightarrow> string" where
  "reverse_ip ip = join ''.'' (rev (split_str ''.'' ip))"

text \<open>
  \<open>BlacklistMonitor.check_blacklist\<close>. Nothing after the resolution of the domain raises, so
  the outer handler of the source is never entered.
\<close>

definition BlacklistMonitor_check_blacklist :: "net \<Rightarrow> string \<Rightarrow> blacklist_result" where
  "BlacklistMonitor_check_blacklist n d =
     (case fst (get_ip n d) of
        Inl e \<Rightarrow>
          \<lparr>bl_monitor = ''blacklist'', bl_status = ''error'',
           bl_message = ''Could not resolve domain: '' @ exn_text e,
           bl_ip = None, listed_in = None, checked_rbls = None\<rparr>
      | Inr ip \<Rightarrow>
          (let (listed, errors) = query_rbls n (reverse_ip ip) rbls ([], [])
           in \<lparr>bl_monitor = ''blacklist'',
               bl_status = (if listed \<noteq> [] then ''critical'' else ''ok''),
               bl_message = (if listed \<noteq> []
                             then ''Listed in '' @ str_nat (length listed) @ '' blacklists''
                             else ''Not listed in any common RBL''),
               bl_ip = Some ip, listed_in = Some listed,
               checked_rbls = Some (length rbls)\<rparr>))"

text \<open>The reserved codes, as the claim words them.\<close>

definition reserved_code :: "string \<Rightarrow> bool" where
  "reserved_code a = (prefix ''127.255.255.'' a \<or> a = ''127.0.0.10'' \<or> a = ''127.0.0.11'')"

lemma set_scan_answers:
  "set (scan_answers rbl answers listed) =
     set listed \<union> (if \<exists>a\<in>set answers. \<not> reserved_code a then {rbl} else {})"
  by (induction answers arbitrary: listed) (auto simp: reserved_code_def)

lemma set_query_rbls:
  "set (fst (query_rbls n rip rs (listed, errors))) =
     set listed \<union> {rbl \<in> set rs. \<exists>answers. system_query n (rip @ ''.'' @ rbl) ''A'' = Inr answers \<and>
                                  (\<exists>a\<in>set answers. \<not> reserved_code a)}"
proof (induction rs arbitrary: listed errors)
  case Nil
  then show ?case by simp
next
  case (Cons rbl rs)
  show ?case
  proof (cases "system_query n (rip @ ''.'' @ rbl) ''A''")
    case (Inl e)
    then show ?thesis using Cons.IH by auto
  next
    case (Inr answers)
    then show ?thesis using Cons.IH by (auto simp: set_scan_answers)
  qed
qed

text \<open>
  Claim C8. In a blacklist check whose domain resolves, an RBL whose answers are all reserved
  codes (an address starting with \<open>127.255.255.\<close>, or equal to \<open>127.0.0.10\<close> or
  \<open>127.0.0.11\<close>) is not in \<open>listed_in\<close>; and when every RBL that answers returns only
  such addresses, \<open>listed_in\<close> is empty and the status is \<open>ok\<close>, not \<open>critical\<close>.
\<close>

theorem reserved_codes_not_listed:
  "fst (get_ip n d) = Inr ip \<Longrightarrow>
     (\<forall>rbl answers.
        system_query n (reverse_ip ip @ ''.'' @ rbl) ''A'' = Inr answers \<and>
        (\<forall>a\<in>set answers. reserved_code a) \<longrightarrow>
        (\<exists>listed. listed_in (BlacklistMonitor_check_blacklist n d) = Some listed \<and> rbl \<notin> set listed)) \<and>
     ((\<forall>rbl\<in>set rbls. \<forall>answers.
         system_query n (reverse_ip ip @ ''.'' @ rbl) ''A'' = Inr answers \<longrightarrow>
         (\<forall>a\<in>set answers. reserved_code a)) \<longrightarrow>
      listed_in (BlacklistMonitor_check_blacklist n d) = Some [] \<and>
      bl_status (BlacklistMonitor_check_blacklist n d) = ''ok'')"
proof -
  assume ip: "fst (get_ip n d) = Inr ip"
  define listed where "listed = fst (query_rbls n (reverse_ip ip) rbls ([], []))"
  have li: "listed_in (BlacklistMonitor_check_blacklist n d) = Some listed"
    using ip by (simp add: BlacklistMonitor_check_blacklist_def listed_def split: prod.splits)
  have st: "bl_status (BlacklistMonitor_check_blacklist n d) = (if listed \<noteq> [] then ''critical'' else ''ok'')"
    using ip by (simp add: BlacklistMonitor_check_blacklist_def listed_def split: prod.splits)
  have chr: "set listed = {rbl \<in> set rbls. \<exists>answers.
                system_query n (reverse_ip ip @ ''.'' @ rbl) ''A'' = Inr answers \<and>
                (\<exists>a\<in>set answers. \<not> reserved_code a)}"
    unfolding listed_def by (simp add: set_query_rbls)
  have one: "rbl \<notin> set listed"
    if "system_query n (reverse_ip ip @ ''.'' @ rbl) ''A'' = Inr answers"
       "\<forall>a\<in>set answers. reserved_code a" for rbl answers
    using that unfolding chr by auto
  have "set listed = {}"
    if "\<forall>rbl\<in>set rbls. \<forall>answers.
         system_query n (reverse_ip ip @ ''.'' @ rbl) ''A'' = Inr answers \<longrightarrow>
         (\<forall>a\<in>set answers. reserved_code a)"
    using that unfolding chr by blast
  then have all: "listed = []"
    if "\<forall>rbl\<in>set rbls. \<forall>answers.
         system_query n (reverse_ip ip @ ''.'' @ rbl) ''A'' = Inr answers \<longrightarrow>
         (\<forall>a\<in>set answers. reserved_code a)"
    using that by simp
  show ?thesis using li st one all by auto
qed

definition net_policy_listed :: net where
  "net_policy_listed =
     net_ok\<lparr>system_query := (\<lambda>q t. Inr [''127.255.255.254'', ''127.0.0.10'', ''127.0.0.11''])\<rparr>"

theorem reserved_codes_not_listed_witness:
  "fst (get_ip net_policy_listed ''a.com'') = Inr ''192.0.2.7'' \<and>
   system_query net_policy_listed (reverse_ip ''192.0.2.7'' @ ''.'' @ ''zen.spamhaus.org'') ''A'' =
     Inr [''127.255.255.254'', ''127.0.0.10'', ''127.0.0.11''] \<and>
   reserved_code ''127.255.255.254'' \<and> reserved_code ''127.0.0.10'' \<and> reserved_code ''127.0.0.11'' \<and>
   listed_in (BlacklistMonitor_check_blacklist net_policy_listed ''a.com'') = Some [] \<and>
   bl_status (BlacklistMonitor_check_blacklist net_policy_listed ''a.com'') = ''ok''"
proof -
  have a: "fst (get_ip net_policy_listed ''a.com'') = Inr ''192.0.2.7''"
    by code_simp
  have q: "system_query net_policy_listed x ''A'' =
             Inr [''127.255.255.254'', ''127.0.0.10'', ''127.0.0.11'']" for x
    by (simp add: net_policy_listed_def)
  have r: "reserved_code ''127.255.255.254''" "reserved_code ''127.0.0.10''" "reserved_code ''127.0.0.11''"
    by (simp_all add: reserved_code_def)
  have h: "\<forall>rbl\<in>set rbls. \<forall>answers.
         system_query net_policy_listed (reverse_ip ''192.0.2.7'' @ ''.'' @ rbl) ''A'' = Inr answers \<longrightarrow>
         (\<forall>a\<in>set answers. reserved_code a)"
    using r by (auto simp: q)
  from reserved_codes_not_listed [OF a] h
  have "listed_in (BlacklistMonitor_check_blacklist net_policy_listed ''a.com'') = Some [] \<and>
      bl_status (BlacklistMonitor_check_blacklist net_policy_listed ''a.com'') = ''ok''"
    by blast
  with a q r show ?thesis by blast
qed

section \<open>Alert state machine (\<open>src/notifications/manager.py\<close>)\<close>

text \<open>
  An Issue Record, with the keys \<open>process_and_send\<close> writes. A timestamp is an instant in
  microseconds, the resolution of \<open>datetime\<close>: the ISO text stored in the file reads back
  as the same instant. The two denormalised keys carry a prefix, the Check Result having
  fields of the same names.
\<close>

record issue_record =
  first_seen :: int
  last_sent :: int
  count :: int
  ir_monitor :: string
  ir_domain :: string

text \<open>The state is a dictionary in insertion order, keyed by \<open>domain:monitor\<close>.\<close>

type_synonym issue_state = "(string \<times> issue_record) list"

text \<open>\<open>timedelta(hours=24)\<close>, in microseconds.\<close>

definition hours24 :: int where
  "hours24 = 24 * 3600 * 1000000"

definition non_ok :: "check_result \<Rightarrow> bool" where
  "non_ok res = (status res \<in> set [Some ''critical'', Some ''error'', Some ''warning''])"

definition get_issue_id :: "check_result \<Rightarrow> string" where
  "get_issue_id res = domain res @ '':'' @ monitor res"

text \<open>
  The body of the loop over the results, on the state, \<open>current_issues\<close> and
  \<open>alerts_to_send\<close>. \<open>now\<close> is the instant of the cycle: every \<open>datetime.now()\<close> of one
  call reads the same instant. Writing a new key appends it, writing an existing key keeps
  its place, as \<open>AList.update\<close> does. \<open>alert_count\<close> is written into the result before it
  is queued.
\<close>

definition process_result ::
  "int \<Rightarrow> check_result \<Rightarrow>
   issue_state \<times> (string \<times> check_result) list \<times> check_result list \<Rightarrow>
   issue_state \<times> (string \<times> check_result) list \<times> check_result list" where
  "process_result now res = (\<lambda>(state, current_issues, alerts_to_send).
     if non_ok res then
       (let issue_id = get_issue_id res
        in case map_of state issue_id of
             Some data \<Rightarrow>
               if now - last_sent data > hours24 then
                 (let data' = data\<lparr>count := count data + 1, last_sent := now\<rparr>;
                      res' = res\<lparr>alert_count := Some (count data')\<rparr>
                  in (AList.update issue_id data' state,
                      AList.update issue_id res' current_issues,
                      alerts_to_send @ [res']))
               else (state, AList.update issue_id res current_issues, alerts_to_send)
           | None \<Rightarrow>
               (let res' = res\<lparr>alert_count := Some 1\<rparr>
                in (AList.update issue_id
                      \<lparr>first_seen = now, last_sent = now, count = 1,
                       ir_monitor = monitor res, ir_domain = domain res\<rparr> state,
                    AList.update issue_id res' current_issues,
                    alerts_to_send @ [res'])))
     else (state, current_issues, alerts_to_send))"

text \<open>The resolved issues: every key of the state that is not in \<open>current_issues\<close> is
  collected, then deleted.\<close>

definition cleanup :: "issue_state \<Rightarrow> (string \<times> check_result) list \<Rightarrow> issue_state" where
  "cleanup state current_issues =
     (let ids_to_remove = filter (\<lambda>issue_id. map_of current_issues issue_id = None) (map fst state)
      in fold AList.delete ids_to_remove state)"

text \<open>\<open>domain_groups\<close>, a \<open>defaultdict(list)\<close>: each alert is appended to the list of
  its domain, a new domain after those already there.\<close>

definition group_by_domain :: "check_result list \<Rightarrow> (string \<times> check_result list) list" where
  "group_by_domain alerts =
     fold (\<lambda>alert domain_groups.
             AList.update (domain alert)
               ((case map_of domain_groups (domain alert) of None \<Rightarrow> [] | Some as \<Rightarrow> as) @ [alert])
               domain_groups)
          alerts []"

definition upper_char :: "char \<Rightarrow> char" where
  "upper_char c = (let n = of_char c :: nat in if 97 \<le> n \<and> n \<le> 122 then char_of (n - 32) else c)"

definition upper :: "string \<Rightarrow> string" where
  "upper s = map upper_char s"

text \<open>The three icons of the message, as their UTF-8 bytes.\<close>

definition icon_siren :: string where
  "icon_siren = [CHR 0xF0, CHR 0x9F, CHR 0x9A, CHR 0xA8]"

definition icon_red :: string where
  "icon_red = [CHR 0xF0, CHR 0x9F, CHR 0x94, CHR 0xB4]"

definition icon_warning :: string where
  "icon_warning = [CHR 0xE2, CHR 0x9A, CHR 0xA0, CHR 0xEF, CHR 0xB8, CHR 0x8F]"

definition annotation :: "check_result \<Rightarrow> string" where
  "annotation alert =
     (if (case alert_count alert of None \<Rightarrow> 0 | Some c \<Rightarrow> c) > 1
      then ''(Repeated '' @ (case alert_count alert of None \<Rightarrow> ''None'' | Some c \<Rightarrow> str_int c) @ ''x)''
      else ''(New)'')"

definition detail_lines :: "check_result \<Rightarrow> string list" where
  "detail_lines alert =
     (case details alert of
        Some (DetailList dets) \<Rightarrow> map (\<lambda>d. ''   - '' @ d) (take 3 dets)
      | Some (DetailStr dets) \<Rightarrow> [''   - '' @ dets]
      | _ \<Rightarrow> [])"

definition alert_lines :: "check_result \<Rightarrow> string list" where
  "alert_lines alert =
     (let icon = (if status alert = Some ''critical'' then icon_red else icon_warning);
          cnt = annotation alert
      in (icon @ '' **'' @ upper (monitor alert) @ ''**: '' @
            (case message alert of None \<Rightarrow> ''Unknown Error'' | Some m \<Rightarrow> m) @ '' '' @ cnt) #
         detail_lines alert)"

text \<open>
  The three values \<open>_send_aggregated_alert\<close> builds for a domain group before it calls the
  service: \<open>title\<close>, \<open>lines\<close> and \<open>message\<close>.
\<close>

definition digest_title :: "string \<Rightarrow> string" where
  "digest_title d = icon_siren @ '' Security Alert: '' @ d"

definition digest_lines :: "string \<Rightarrow> check_result list \<Rightarrow> string list" where
  "digest_lines d alerts =
     (''Found '' @ str_nat (length alerts) @ '' issues for **'' @ d @ ''**:'') #
     concat (map alert_lines alerts)"

definition digest_message :: "string \<Rightarrow> check_result list \<Rightarrow> string" where
  "digest_message d alerts = join [CHR 0x0A] (digest_lines d alerts)"

text \<open>
  \<open>self.service.send(title, message)\<close>: the class \<open>NotificationService\<close> of
  \<open>src/notifications/service.py\<close> defines \<open>send_notification\<close> and private channel methods
  and no \<open>send\<close>, so the lookup of the method raises, whatever the arguments.
\<close>

definition service_send :: "string \<Rightarrow> string \<Rightarrow> exn + unit" where
  "service_send title msg = Inl (AttributeError ''NotificationService'' ''send'')"

definition send_aggregated_alert :: "string \<Rightarrow> check_result list \<Rightarrow> exn + unit" where
  "send_aggregated_alert d alerts =
     (let title = digest_title d;
          msg = digest_message d alerts
      in service_send title msg)"

text \<open>What the step does to the outside, in order: the write of the state file, and the
  exception that leaves the step, if any.\<close>

datatype effect =
    SaveState issue_state
  | Raise exn

text \<open>The loop over the domain groups: an exception of a send leaves the loop.\<close>

fun send_all :: "(string \<times> check_result list) list \<Rightarrow> effect list" where
  "send_all [] = []"
| "send_all ((d, alerts) # rest) =
     (case send_aggregated_alert d alerts of
        Inl e \<Rightarrow> [Raise e]
      | Inr u \<Rightarrow> send_all rest)"

text \<open>\<open>alerts_to_send\<close> after the loop, and the domain groups, the digests of the cycle
  (none when there is no alert: the step returns before grouping).\<close>

definition alerts_to_send :: "int \<Rightarrow> check_result list \<Rightarrow> issue_state \<Rightarrow> check_result list" where
  "alerts_to_send now results state = snd (snd (fold (process_result now) results (state, [], [])))"

definition digests :: "int \<Rightarrow> check_result list \<Rightarrow> issue_state \<Rightarrow> (string \<times> check_result list) list" where
  "digests now results state =
     (let alerts = alerts_to_send now results state
      in if alerts = [] then [] else group_by_domain alerts)"

text \<open>\<open>process_and_send\<close>: the loop, the cleanup, the write of the state, then the sends,
  one domain group after the other. It returns the new state and the effects in order.\<close>

definition process_and_send :: "int \<Rightarrow> check_result list \<Rightarrow> issue_state \<Rightarrow> issue_state \<times> effect list" where
  "process_and_send now results state =
     (let (state1, current_issues, alerts) = fold (process_result now) results (state, [], []);
          state2 = cleanup state1 current_issues
      in (state2,
          SaveState state2 #
          (if alerts = [] then []
           else send_all (group_by_domain alerts))))"

subsection \<open>The loop over the results\<close>

text \<open>The resend test, the record a resend leaves, and the record of a new issue.\<close>

definition stale :: "int \<Rightarrow> issue_record \<Rightarrow> bool" where
  "stale now data = (now - last_sent data > hours24)"

definition refresh :: "int \<Rightarrow> issue_record \<Rightarrow> issue_record" where
  "refresh now data = (if stale now data then data\<lparr>count := count data + 1, last_sent := now\<rparr> else data)"

definition new_record :: "int \<Rightarrow> check_result \<Rightarrow> issue_record" where
  "new_record now r = \<lparr>first_seen = now, last_sent = now, count = 1,
                        ir_monitor = monitor r, ir_domain = domain r\<rparr>"

definition issue_ids :: "check_result list \<Rightarrow> string set" where
  "issue_ids rs = get_issue_id ` {r \<in> set rs. non_ok r}"

lemma hours24_pos: "0 < hours24"
  by (simp add: hours24_def)

lemma not_stale_refresh: "\<not> stale now (refresh now data)"
  using hours24_pos by (simp add: refresh_def stale_def)

lemma not_stale_new: "\<not> stale now (new_record now r)"
  using hours24_pos by (simp add: new_record_def stale_def)

lemma refresh_fixed: "\<not> stale now data \<Longrightarrow> refresh now data = data"
  by (simp add: refresh_def)

lemma get_issue_id_alert_count [simp]:
  "get_issue_id (r\<lparr>alert_count := c\<rparr>) = get_issue_id r"
  by (simp add: get_issue_id_def)

lemma non_ok_alert_count [simp]: "non_ok (r\<lparr>alert_count := c\<rparr>) = non_ok r"
  by (simp add: non_ok_def)

lemma process_result_ok:
  "\<not> non_ok r \<Longrightarrow> process_result now r (st, cur, al) = (st, cur, al)"
  by (simp add: process_result_def)

lemma process_result_new:
  "non_ok r \<Longrightarrow> map_of st (get_issue_id r) = None \<Longrightarrow>
   process_result now r (st, cur, al) =
     (AList.update (get_issue_id r) (new_record now r) st,
      AList.update (get_issue_id r) (r\<lparr>alert_count := Some 1\<rparr>) cur,
      al @ [r\<lparr>alert_count := Some 1\<rparr>])"
  by (simp add: process_result_def new_record_def Let_def)

lemma process_result_resend:
  "non_ok r \<Longrightarrow> map_of st (get_issue_id r) = Some data \<Longrightarrow> stale now data \<Longrightarrow>
   process_result now r (st, cur, al) =
     (AList.update (get_issue_id r) (refresh now data) st,
      AList.update (get_issue_id r) (r\<lparr>alert_count := Some (count data + 1)\<rparr>) cur,
      al @ [r\<lparr>alert_count := Some (count data + 1)\<rparr>])"
  by (simp add: process_result_def refresh_def stale_def Let_def)

lemma process_result_snooze:
  "non_ok r \<Longrightarrow> map_of st (get_issue_id r) = Some data \<Longrightarrow> \<not> stale now data \<Longrightarrow>
   process_result now r (st, cur, al) = (st, AList.update (get_issue_id r) r cur, al)"
  by (simp add: process_result_def stale_def Let_def)

lemma issue_ids_Nil [simp]: "issue_ids [] = {}"
  by (simp add: issue_ids_def)

lemma issue_ids_Cons:
  "issue_ids (r # rs) = (if non_ok r then insert (get_issue_id r) (issue_ids rs) else issue_ids rs)"
  by (auto simp: issue_ids_def)

lemma map_of_Some_key: "map_of xs k = Some v \<Longrightarrow> k \<in> fst ` set xs"
  by (metis domI dom_map_of_conv_image_fst)

lemma loop_cur_keys:
  "fst ` set (fst (snd (fold (process_result now) rs (st, cur, al)))) = fst ` set cur \<union> issue_ids rs"
proof (induction rs arbitrary: st cur al)
  case Nil
  then show ?case by simp
next
  case (Cons r rs)
  show ?case
  proof (cases "non_ok r")
    case False
    then show ?thesis using Cons.IH by (simp add: process_result_ok issue_ids_Cons)
  next
    case True
    show ?thesis
    proof (cases "map_of st (get_issue_id r)")
      case None
      then show ?thesis using True Cons.IH
        by (simp add: process_result_new issue_ids_Cons dom_update)
    next
      case (Some data)
      then show ?thesis using True Cons.IH
        by (cases "stale now data")
          (simp_all add: process_result_resend process_result_snooze issue_ids_Cons dom_update)
    qed
  qed
qed

lemma loop_state_keys:
  "fst ` set (fst (fold (process_result now) rs (st, cur, al))) = fst ` set st \<union> issue_ids rs"
proof (induction rs arbitrary: st cur al)
  case Nil
  then show ?case by simp
next
  case (Cons r rs)
  show ?case
  proof (cases "non_ok r")
    case False
    then show ?thesis using Cons.IH by (simp add: process_result_ok issue_ids_Cons)
  next
    case True
    show ?thesis
    proof (cases "map_of st (get_issue_id r)")
      case None
      then show ?thesis using True Cons.IH
        by (simp add: process_result_new issue_ids_Cons dom_update)
    next
      case (Some data)
      then have "get_issue_id r \<in> fst ` set st" by (rule map_of_Some_key)
      then show ?thesis using True Cons.IH Some
        by (cases "stale now data")
          (auto simp: process_result_resend process_result_snooze issue_ids_Cons dom_update)
    qed
  qed
qed

lemma loop_lookup:
  "map_of (fst (fold (process_result now) rs (st, cur, al))) k =
     (if k \<in> issue_ids rs
      then (case map_of st k of
              Some data \<Rightarrow> Some (refresh now data)
            | None \<Rightarrow> Some (new_record now (the (find (\<lambda>r. non_ok r \<and> get_issue_id r = k) rs))))
      else map_of st k)"
proof (induction rs arbitrary: st cur al)
  case Nil
  then show ?case by simp
next
  case (Cons r rs)
  show ?case
  proof (cases "non_ok r")
    case False
    then show ?thesis using Cons.IH
      by (simp add: process_result_ok issue_ids_Cons split: option.splits)
  next
    case True
    show ?thesis
    proof (cases "map_of st (get_issue_id r)")
      case None
      show ?thesis
        using True None Cons.IH [of "AList.update (get_issue_id r) (new_record now r) st"]
        by (simp add: process_result_new issue_ids_Cons update_conv'
            refresh_fixed [OF not_stale_new] split: option.splits)
    next
      case (Some data)
      show ?thesis
      proof (cases "stale now data")
        case st: True
        show ?thesis
          using True Some st Cons.IH [of "AList.update (get_issue_id r) (refresh now data) st"]
          by (simp add: process_result_resend issue_ids_Cons update_conv'
              refresh_fixed [OF not_stale_refresh] split: option.splits)
      next
        case st: False
        show ?thesis
          using True Some st Cons.IH [of st]
          by (auto simp: process_result_snooze issue_ids_Cons refresh_fixed split: option.splits)
      qed
    qed
  qed
qed

subsection \<open>Removing the resolved issues\<close>

lemma fold_delete: "fold AList.delete ks st = filter (\<lambda>p. fst p \<notin> set ks) st"
proof (induction ks arbitrary: st)
  case Nil
  then show ?case by simp
next
  case (Cons k ks)
  have "AList.delete k st = filter (\<lambda>p. fst p \<noteq> k) st"
    by (simp add: AList.delete_eq case_prod_unfold) metis
  then show ?case using Cons.IH by (simp add: conj_commute)
qed

lemma cleanup_filter: "cleanup st cur = filter (\<lambda>p. map_of cur (fst p) \<noteq> None) st"
  unfolding cleanup_def Let_def fold_delete
  by (rule filter_cong) auto

lemma cleanup_keys: "fst ` set (cleanup st cur) = fst ` set st \<inter> fst ` set cur"
  by (auto simp: cleanup_filter map_of_eq_None_iff)

lemma map_of_filter_key:
  "map_of (filter (\<lambda>p. P (fst p)) xs) k = (if P k then map_of xs k else None)"
  by (induction xs) auto

lemma cleanup_lookup:
  "map_of (cleanup st cur) k = (if k \<in> fst ` set cur then map_of st k else None)"
proof -
  have "map_of (cleanup st cur) k = (if map_of cur k \<noteq> None then map_of st k else None)"
    unfolding cleanup_filter by (rule map_of_filter_key)
  then show ?thesis by (simp add: map_of_eq_None_iff)
qed

lemma cleanup_same: "fst ` set st \<subseteq> fst ` set cur \<Longrightarrow> cleanup st cur = st"
  unfolding cleanup_filter by (auto simp: map_of_eq_None_iff intro!: filter_True)


subsection \<open>The whole step\<close>

lemma process_and_send_state:
  "fst (process_and_send now rs st) =
     cleanup (fst (fold (process_result now) rs (st, [], [])))
             (fst (snd (fold (process_result now) rs (st, [], []))))"
  by (simp add: process_and_send_def Let_def split: prod.splits)

lemma send_all_raises:
  "send_all gs = (if gs = [] then [] else [Raise (AttributeError ''NotificationService'' ''send'')])"
  by (cases gs) (auto simp: send_aggregated_alert_def service_send_def)

lemma process_and_send_effects:
  "snd (process_and_send now rs st) =
     SaveState (fst (process_and_send now rs st)) # send_all (digests now rs st)"
  by (simp add: process_and_send_def digests_def alerts_to_send_def Let_def split: prod.splits)

lemma state_keys: "fst ` set (fst (process_and_send now rs st)) = issue_ids rs"
  unfolding process_and_send_state cleanup_keys loop_state_keys loop_cur_keys by auto

lemma state_lookup:
  "map_of (fst (process_and_send now rs st)) k =
     (if k \<in> issue_ids rs
      then (case map_of st k of
              Some data \<Rightarrow> Some (refresh now data)
            | None \<Rightarrow> Some (new_record now (the (find (\<lambda>r. non_ok r \<and> get_issue_id r = k) rs))))
      else None)"
  unfolding process_and_send_state cleanup_lookup loop_cur_keys loop_lookup by simp

lemma state_not_stale:
  "map_of (fst (process_and_send now rs st)) k = Some data \<Longrightarrow> \<not> stale now data"
  unfolding state_lookup
  by (auto simp: not_stale_refresh not_stale_new split: if_splits option.splits)

text \<open>A loop in which every non-ok pair has a record inside the window changes neither the
  records nor the alerts.\<close>

lemma loop_all_snoozed:
  "(\<And>k. k \<in> issue_ids rs \<Longrightarrow> \<exists>data. map_of st k = Some data \<and> \<not> stale now data) \<Longrightarrow>
   fst (fold (process_result now) rs (st, cur, al)) = st \<and>
   snd (snd (fold (process_result now) rs (st, cur, al))) = al"
proof (induction rs arbitrary: cur)
  case Nil
  then show ?case by simp
next
  case (Cons r rs)
  have rest: "\<And>k. k \<in> issue_ids rs \<Longrightarrow> \<exists>data. map_of st k = Some data \<and> \<not> stale now data"
    using Cons.prems by (simp add: issue_ids_Cons split: if_splits)
  show ?case
  proof (cases "non_ok r")
    case False
    then show ?thesis using Cons.IH [OF rest] by (simp add: process_result_ok)
  next
    case True
    then obtain data where "map_of st (get_issue_id r) = Some data" "\<not> stale now data"
      using Cons.prems [of "get_issue_id r"] by (auto simp: issue_ids_Cons)
    then show ?thesis using True Cons.IH [OF rest] by (simp add: process_result_snooze)
  qed
qed


lemma state_has_record:
  assumes "k \<in> issue_ids rs"
  shows "\<exists>data. map_of (fst (process_and_send now rs st)) k = Some data \<and> \<not> stale now data"
proof -
  have "k \<in> fst ` set (fst (process_and_send now rs st))" using assms by (simp add: state_keys)
  then have "map_of (fst (process_and_send now rs st)) k \<noteq> None" by (simp add: map_of_eq_None_iff)
  then obtain data where d: "map_of (fst (process_and_send now rs st)) k = Some data" by blast
  then have "\<not> stale now data" by (rule state_not_stale)
  with d show ?thesis by blast
qed

text \<open>
  Claim C10. After every call of the process step, the keys of the issue state are exactly
  the \<open>domain:monitor\<close> ids whose status in the results of that cycle is \<open>warning\<close>,
  \<open>critical\<close> or \<open>error\<close>; and the first effect of the step, whatever the alerts, is the
  write of that state to the store.
\<close>

theorem persisted_keys_are_current_issues:
  "fst ` set (fst (process_and_send now results state)) =
     get_issue_id ` {r \<in> set results. status r = Some ''warning'' \<or> status r = Some ''critical'' \<or>
                                        status r = Some ''error''} \<and>
   take 1 (snd (process_and_send now results state)) =
     [SaveState (fst (process_and_send now results state))]"
proof -
  have "issue_ids results =
     get_issue_id ` {r \<in> set results. status r = Some ''warning'' \<or> status r = Some ''critical'' \<or>
                                        status r = Some ''error''}"
    unfolding issue_ids_def non_ok_def by (rule arg_cong [where f = "(`) get_issue_id"]) auto
  then show ?thesis by (simp add: state_keys process_and_send_effects)
qed

definition sample_result :: "string \<Rightarrow> string \<Rightarrow> string \<Rightarrow> check_result" where
  "sample_result d m s =
     \<lparr>domain = d, monitor = m, status = Some s, message = Some (m @ '' is '' @ s),
      details = None, alert_count = None\<rparr>"

definition sample_results :: "check_result list" where
  "sample_results =
     [sample_result ''a.com'' ''ssl'' ''warning'', sample_result ''b.org'' ''dns'' ''ok'',
      sample_result ''a.com'' ''blacklist'' ''critical'', sample_result ''b.org'' ''ssl'' ''error'']"

definition sample_state :: issue_state where
  "sample_state =
     [(''a.com:ssl'', \<lparr>first_seen = 0, last_sent = 0, count = 1,
                       ir_monitor = ''ssl'', ir_domain = ''a.com''\<rparr>),
      (''b.org:dns'', \<lparr>first_seen = 0, last_sent = 0, count = 3,
                       ir_monitor = ''dns'', ir_domain = ''b.org''\<rparr>)]"

theorem persisted_keys_are_current_issues_witness:
  "fst ` set (fst (process_and_send 5 sample_results sample_state)) =
     get_issue_id ` {r \<in> set sample_results. status r = Some ''warning'' \<or>
                        status r = Some ''critical'' \<or> status r = Some ''error''} \<and>
   take 1 (snd (process_and_send 5 sample_results sample_state)) =
     [SaveState (fst (process_and_send 5 sample_results sample_state))] \<and>
   map fst (fst (process_and_send 5 sample_results sample_state)) =
     [''a.com:ssl'', ''a.com:blacklist'', ''b.org:ssl''] \<and>
   tl (snd (process_and_send 5 sample_results sample_state)) =
     [Raise (AttributeError ''NotificationService'' ''send'')]"
proof -
  have a: "map fst (fst (process_and_send 5 sample_results sample_state)) =
     [''a.com:ssl'', ''a.com:blacklist'', ''b.org:ssl'']"
    by code_simp
  have b: "tl (snd (process_and_send 5 sample_results sample_state)) =
     [Raise (AttributeError ''NotificationService'' ''send'')]"
    by code_simp
  from persisted_keys_are_current_issues [of 5 sample_results sample_state] a b
  show ?thesis by blast
qed

text \<open>
  Claim C4. For every result sequence and every issue store, running the process step a
  second time at the same instant on the same results sends nothing: the second run returns
  the state of the first unchanged, its only effect is the write of that state, there is no
  digest, and every non-ok pair has a record whose \<open>last_sent\<close> is within 24 hours (it is
  snoozed).
\<close>

theorem second_run_snoozes:
  "process_and_send now results (fst (process_and_send now results state)) =
     (fst (process_and_send now results state),
      [SaveState (fst (process_and_send now results state))]) \<and>
   digests now results (fst (process_and_send now results state)) = [] \<and>
   (\<forall>r\<in>set results. non_ok r \<longrightarrow>
      (\<exists>data. map_of (fst (process_and_send now results state)) (get_issue_id r) = Some data \<and>
              \<not> now - last_sent data > hours24))"
proof -
  define st1 where "st1 = fst (process_and_send now results state)"
  have rec: "\<exists>data. map_of st1 k = Some data \<and> \<not> stale now data" if "k \<in> issue_ids results" for k
    unfolding st1_def using that by (rule state_has_record)
  have loop: "fst (fold (process_result now) results (st1, [], [])) = st1"
    and al: "snd (snd (fold (process_result now) results (st1, [], []))) = []"
    using loop_all_snoozed [of results st1 now "[]" "[]"] rec by blast+
  have keys: "fst ` set st1 \<subseteq>
      fst ` set (fst (snd (fold (process_result now) results (st1, [], []))))"
    unfolding loop_cur_keys st1_def state_keys by simp
  have s2: "fst (process_and_send now results st1) = st1"
    unfolding process_and_send_state loop using keys by (rule cleanup_same)
  have d2: "digests now results st1 = []"
    by (simp add: digests_def alerts_to_send_def al)
  have e2: "snd (process_and_send now results st1) = [SaveState st1]"
    unfolding process_and_send_effects s2 d2 by simp
  have snz: "\<exists>data. map_of st1 (get_issue_id r) = Some data \<and> \<not> now - last_sent data > hours24"
    if "r \<in> set results" "non_ok r" for r
  proof -
    have "get_issue_id r \<in> issue_ids results" using that by (auto simp: issue_ids_def)
    from rec [OF this] show ?thesis by (simp add: stale_def)
  qed
  have "process_and_send now results st1 = (st1, [SaveState st1])"
    using s2 e2 by (simp add: prod_eq_iff)
  then show ?thesis using d2 snz unfolding st1_def by blast
qed

theorem second_run_snoozes_witness:
  "process_and_send 5 sample_results (fst (process_and_send 5 sample_results sample_state)) =
     (fst (process_and_send 5 sample_results sample_state),
      [SaveState (fst (process_and_send 5 sample_results sample_state))]) \<and>
   digests 5 sample_results (fst (process_and_send 5 sample_results sample_state)) = [] \<and>
   sample_result ''a.com'' ''blacklist'' ''critical'' \<in> set sample_results \<and>
   non_ok (sample_result ''a.com'' ''blacklist'' ''critical'') \<and>
   map_of (fst (process_and_send 5 sample_results sample_state))
     (get_issue_id (sample_result ''a.com'' ''blacklist'' ''critical'')) =
     Some \<lparr>first_seen = 5, last_sent = 5, count = 1, ir_monitor = ''blacklist'', ir_domain = ''a.com''\<rparr> \<and>
   length (digests 5 sample_results sample_state) = 2"
proof -
  have a: "sample_result ''a.com'' ''blacklist'' ''critical'' \<in> set sample_results"
    by (simp add: sample_results_def)
  have b: "non_ok (sample_result ''a.com'' ''blacklist'' ''critical'')"
    by (simp add: non_ok_def sample_result_def)
  have c: "map_of (fst (process_and_send 5 sample_results sample_state))
     (get_issue_id (sample_result ''a.com'' ''blacklist'' ''critical'')) =
     Some \<lparr>first_seen = 5, last_sent = 5, count = 1, ir_monitor = ''blacklist'', ir_domain = ''a.com''\<rparr>"
    by code_simp
  have d: "length (digests 5 sample_results sample_state) = 2"
    by code_simp
  from second_run_snoozes [of 5 sample_results sample_state] a b c d
  show ?thesis by blast
qed

subsection \<open>The alerts of a cycle\<close>

text \<open>What one result adds to \<open>alerts_to_send\<close>, and the test that makes a result with
  count \<open>c\<close> a New or a Resend entry for a given state.\<close>

definition new_alerts :: "int \<Rightarrow> issue_state \<Rightarrow> check_result \<Rightarrow> check_result list" where
  "new_alerts now st r =
     (if non_ok r
      then (case map_of st (get_issue_id r) of
              None \<Rightarrow> [r\<lparr>alert_count := Some 1\<rparr>]
            | Some data \<Rightarrow> if stale now data then [r\<lparr>alert_count := Some (count data + 1)\<rparr>] else [])
      else [])"

definition eligible :: "int \<Rightarrow> issue_state \<Rightarrow> string \<Rightarrow> int \<Rightarrow> bool" where
  "eligible now st k c =
     (case map_of st k of None \<Rightarrow> c = 1 | Some data \<Rightarrow> stale now data \<and> c = count data + 1)"

lemma step_alerts:
  "snd (snd (process_result now r (st, cur, al))) = al @ new_alerts now st r"
  by (auto simp: process_result_def new_alerts_def stale_def Let_def split: option.splits)

lemma step_other:
  "k \<noteq> get_issue_id r \<Longrightarrow> map_of (fst (process_result now r (st, cur, al))) k = map_of st k"
  by (auto simp: process_result_def Let_def update_conv' split: option.splits)

lemma step_own:
  assumes "non_ok r"
  shows "\<exists>data. map_of (fst (process_result now r (st, cur, al))) (get_issue_id r) = Some data \<and>
                \<not> stale now data"
proof (cases "map_of st (get_issue_id r)")
  case None
  then show ?thesis using assms not_stale_new [of now r]
    by (simp add: process_result_new update_conv')
next
  case (Some data)
  then show ?thesis using assms not_stale_refresh [of now data]
    by (cases "stale now data") (simp_all add: process_result_resend process_result_snooze update_conv')
qed

lemma step_not_eligible:
  "non_ok r \<Longrightarrow> \<not> eligible now (fst (process_result now r (st, cur, al))) (get_issue_id r) c"
  using step_own [of r now st cur al] by (auto simp: eligible_def)

lemma step_eligible_other:
  "k \<noteq> get_issue_id r \<Longrightarrow>
   eligible now (fst (process_result now r (st, cur, al))) k c = eligible now st k c"
  by (simp add: eligible_def step_other)

lemma new_alerts_sound:
  "a \<in> set (new_alerts now st r) \<Longrightarrow>
   \<exists>c. non_ok r \<and> a = r\<lparr>alert_count := Some c\<rparr> \<and> eligible now st (get_issue_id r) c"
  by (auto simp: new_alerts_def eligible_def split: if_splits option.splits)

lemma loop_alerts_sound:
  "a \<in> set (snd (snd (fold (process_result now) rs (st, cur, al)))) \<Longrightarrow>
   a \<in> set al \<or>
   (\<exists>r\<in>set rs. \<exists>c. non_ok r \<and> a = r\<lparr>alert_count := Some c\<rparr> \<and>
                    eligible now st (get_issue_id r) c)"
proof (induction rs arbitrary: st cur al)
  case Nil
  then show ?case by simp
next
  case (Cons r rs)
  obtain st1 cur1 al1 where step: "process_result now r (st, cur, al) = (st1, cur1, al1)"
    by (cases "process_result now r (st, cur, al)") auto
  have al1: "al1 = al @ new_alerts now st r" using step_alerts [of now r st cur al] step by simp
  have st1: "st1 = fst (process_result now r (st, cur, al))" using step by simp
  from Cons.prems have "a \<in> set (snd (snd (fold (process_result now) rs (st1, cur1, al1))))"
    by (simp add: step)
  from Cons.IH [OF this] consider
      (old) "a \<in> set al"
    | (here) "a \<in> set (new_alerts now st r)"
    | (later) r' c where "r' \<in> set rs" "non_ok r'" "a = r'\<lparr>alert_count := Some c\<rparr>"
        "eligible now st1 (get_issue_id r') c"
    unfolding al1 by auto
  then show ?case
  proof cases
    case old
    then show ?thesis by simp
  next
    case here
    from new_alerts_sound [OF this] show ?thesis by auto
  next
    case later
    have "eligible now st (get_issue_id r') c"
    proof (cases "non_ok r")
      case False
      then have "st1 = st" using step by (simp add: process_result_ok)
      with later(4) show ?thesis by simp
    next
      case True
      have "get_issue_id r' \<noteq> get_issue_id r"
        using later(4) step_not_eligible [OF True, of now st cur al c] unfolding st1 by auto
      then show ?thesis using later(4) unfolding st1 by (simp add: step_eligible_other)
    qed
    with later(1-3) show ?thesis by auto
  qed
qed

lemma loop_alerts_prefix:
  "\<exists>new. snd (snd (fold (process_result now) rs (st, cur, al))) = al @ new"
proof (induction rs arbitrary: st cur al)
  case Nil
  then show ?case by simp
next
  case (Cons r rs)
  obtain st1 cur1 al1 where step: "process_result now r (st, cur, al) = (st1, cur1, al1)"
    by (cases "process_result now r (st, cur, al)") auto
  have al1: "al1 = al @ new_alerts now st r" using step_alerts [of now r st cur al] step by simp
  from Cons.IH [of st1 cur1 al1] show ?case by (auto simp: step al1)
qed

lemma loop_alerts_complete:
  "k \<in> issue_ids rs \<Longrightarrow> eligible now st k c \<Longrightarrow>
   \<exists>a\<in>set (snd (snd (fold (process_result now) rs (st, cur, al)))).
      get_issue_id a = k \<and> alert_count a = Some c \<and> non_ok a"
proof (induction rs arbitrary: st cur al)
  case Nil
  then show ?case by simp
next
  case (Cons r rs)
  obtain st1 cur1 al1 where step: "process_result now r (st, cur, al) = (st1, cur1, al1)"
    by (cases "process_result now r (st, cur, al)") auto
  have al1: "al1 = al @ new_alerts now st r" using step_alerts [of now r st cur al] step by simp
  have st1: "st1 = fst (process_result now r (st, cur, al))" using step by simp
  show ?case
  proof (cases "non_ok r \<and> get_issue_id r = k")
    case True
    then have "r\<lparr>alert_count := Some c\<rparr> \<in> set (new_alerts now st r)"
      using Cons.prems(2) by (auto simp: new_alerts_def eligible_def split: option.splits)
    then have "r\<lparr>alert_count := Some c\<rparr> \<in> set al1" by (simp add: al1)
    moreover obtain new where "snd (snd (fold (process_result now) rs (st1, cur1, al1))) = al1 @ new"
      using loop_alerts_prefix by blast
    ultimately have "r\<lparr>alert_count := Some c\<rparr> \<in>
        set (snd (snd (fold (process_result now) (r # rs) (st, cur, al))))"
      by (simp add: step)
    then show ?thesis using True by (intro bexI [of _ "r\<lparr>alert_count := Some c\<rparr>"]) simp_all
  next
    case False
    then have k: "k \<in> issue_ids rs" using Cons.prems(1) by (auto simp: issue_ids_Cons split: if_splits)
    have "eligible now st1 k c"
    proof (cases "non_ok r")
      case nr: False
      then have "st1 = st" using step by (simp add: process_result_ok)
      then show ?thesis using Cons.prems(2) by simp
    next
      case nr: True
      with False have "k \<noteq> get_issue_id r" by auto
      then show ?thesis using Cons.prems(2) unfolding st1 by (simp add: step_eligible_other)
    qed
    from Cons.IH [OF k this, of cur1 al1] show ?thesis by (simp add: step)
  qed
qed


lemma loop_alerts_order:
  "\<exists>xs. map (\<lambda>a. a\<lparr>alert_count := None\<rparr>) (snd (snd (fold (process_result now) rs (st, cur, al)))) =
          map (\<lambda>a. a\<lparr>alert_count := None\<rparr>) al @ xs \<and>
        subseq xs (map (\<lambda>r. r\<lparr>alert_count := None\<rparr>) rs)"
proof (induction rs arbitrary: st cur al)
  case Nil
  then show ?case by simp
next
  case (Cons r rs)
  obtain st1 cur1 al1 where step: "process_result now r (st, cur, al) = (st1, cur1, al1)"
    by (cases "process_result now r (st, cur, al)") auto
  have al1: "al1 = al @ new_alerts now st r" using step_alerts [of now r st cur al] step by simp
  obtain xs where xs:
    "map (\<lambda>a. a\<lparr>alert_count := None\<rparr>) (snd (snd (fold (process_result now) rs (st1, cur1, al1)))) =
       map (\<lambda>a. a\<lparr>alert_count := None\<rparr>) al1 @ xs"
    "subseq xs (map (\<lambda>r. r\<lparr>alert_count := None\<rparr>) rs)"
    using Cons.IH [of st1 cur1 al1] by blast
  have "new_alerts now st r = [] \<or> (\<exists>c. new_alerts now st r = [r\<lparr>alert_count := Some c\<rparr>])"
    by (auto simp: new_alerts_def split: option.splits)
  then show ?case
  proof
    assume "new_alerts now st r = []"
    then show ?thesis using xs by (auto simp: step al1 intro!: exI [of _ xs])
  next
    assume "\<exists>c. new_alerts now st r = [r\<lparr>alert_count := Some c\<rparr>]"
    then obtain c where c: "new_alerts now st r = [r\<lparr>alert_count := Some c\<rparr>]" by blast
    show ?thesis using xs
      by (auto simp: step al1 c intro!: exI [of _ "r\<lparr>alert_count := None\<rparr> # xs"])
  qed
qed

subsection \<open>Grouping by domain\<close>

lemma group_fold_lookup:
  "map_of (fold (\<lambda>alert domain_groups.
             AList.update (domain alert)
               ((case map_of domain_groups (domain alert) of None \<Rightarrow> [] | Some as \<Rightarrow> as) @ [alert])
               domain_groups) al acc) d =
     (case map_of acc d of
        None \<Rightarrow> (if filter (\<lambda>a. domain a = d) al = [] then None
                 else Some (filter (\<lambda>a. domain a = d) al))
      | Some ys \<Rightarrow> Some (ys @ filter (\<lambda>a. domain a = d) al))"
  by (induction al arbitrary: acc) (auto simp: update_conv' split: option.splits)

lemma group_fold_distinct:
  "distinct (map fst acc) \<Longrightarrow>
   distinct (map fst (fold (\<lambda>alert domain_groups.
             AList.update (domain alert)
               ((case map_of domain_groups (domain alert) of None \<Rightarrow> [] | Some as \<Rightarrow> as) @ [alert])
               domain_groups) al acc))"
  by (induction al arbitrary: acc) (auto simp: distinct_update)

lemma group_lookup:
  "map_of (group_by_domain al) d =
     (if filter (\<lambda>a. domain a = d) al = [] then None else Some (filter (\<lambda>a. domain a = d) al))"
  unfolding group_by_domain_def group_fold_lookup by simp

lemma group_distinct: "distinct (map fst (group_by_domain al))"
  unfolding group_by_domain_def by (rule group_fold_distinct) simp

lemma group_member:
  "(d, as) \<in> set (group_by_domain al) \<longleftrightarrow>
   as \<noteq> [] \<and> as = filter (\<lambda>a. domain a = d) al"
proof -
  have "(d, as) \<in> set (group_by_domain al) \<longleftrightarrow> map_of (group_by_domain al) d = Some as"
    using group_distinct [of al] by simp
  then show ?thesis by (auto simp: group_lookup)
qed

lemma ne_Nil_set: "x \<in> set xs \<Longrightarrow> xs \<noteq> []"
  by auto

lemma digests_distinct: "distinct (map fst (digests now rs st))"
  by (simp add: digests_def Let_def group_distinct)

lemma digests_member:
  "(d, as) \<in> set (digests now rs st) \<longleftrightarrow>
   as \<noteq> [] \<and> as = filter (\<lambda>a. domain a = d) (alerts_to_send now rs st)"
  by (auto simp: digests_def Let_def group_member)

lemma digests_entry:
  "(\<exists>d as. (d, as) \<in> set (digests now rs st) \<and> a \<in> set as) \<longleftrightarrow> a \<in> set (alerts_to_send now rs st)"
proof
  assume "\<exists>d as. (d, as) \<in> set (digests now rs st) \<and> a \<in> set as"
  then show "a \<in> set (alerts_to_send now rs st)" by (auto simp: digests_member)
next
  assume a: "a \<in> set (alerts_to_send now rs st)"
  let ?as = "filter (\<lambda>x. domain x = domain a) (alerts_to_send now rs st)"
  have "a \<in> set ?as" using a by simp
  moreover from this have "?as \<noteq> []" by (rule ne_Nil_set)
  ultimately have "(domain a, ?as) \<in> set (digests now rs st) \<and> a \<in> set ?as"
    by (simp add: digests_member)
  then show "\<exists>d as. (d, as) \<in> set (digests now rs st) \<and> a \<in> set as" by blast
qed

lemma alerts_sound:
  "a \<in> set (alerts_to_send now rs st) \<Longrightarrow>
   \<exists>r\<in>set rs. \<exists>c. non_ok r \<and> a = r\<lparr>alert_count := Some c\<rparr> \<and> eligible now st (get_issue_id r) c"
  unfolding alerts_to_send_def using loop_alerts_sound [of a now rs st "[]" "[]"] by simp

lemma alerts_complete:
  "k \<in> issue_ids rs \<Longrightarrow> eligible now st k c \<Longrightarrow>
   \<exists>a\<in>set (alerts_to_send now rs st). get_issue_id a = k \<and> alert_count a = Some c \<and> non_ok a"
  unfolding alerts_to_send_def by (rule loop_alerts_complete)


subsection \<open>The resend window\<close>

text \<open>
  Claim C5. Instants are counted in microseconds: 24 hours are 86400000000, 24 hours and
  one second 86401000000, 24 hours less one second 86399000000. For a pair with a non-ok
  status and an existing Issue Record: when \<open>now - last_sent\<close> exceeds 24 hours the record
  has its count incremented and its \<open>last_sent\<close> set to \<open>now\<close>, and an entry for the pair
  with the new count is in a digest; otherwise the record is unchanged and no digest has an
  entry for the pair. A record whose \<open>last_sent\<close> is 24 hours and one second in the past
  is resent, one whose \<open>last_sent\<close> is 24 hours less one second in the past is snoozed.
\<close>

theorem resend_after_24h:
  "r \<in> set results \<Longrightarrow> non_ok r \<Longrightarrow> map_of state (get_issue_id r) = Some data \<Longrightarrow>
     (if now - last_sent data > 86400000000
      then map_of (fst (process_and_send now results state)) (get_issue_id r) =
             Some (data\<lparr>count := count data + 1, last_sent := now\<rparr>) \<and>
           (\<exists>d as a. (d, as) \<in> set (digests now results state) \<and> a \<in> set as \<and>
                     get_issue_id a = get_issue_id r \<and> alert_count a = Some (count data + 1))
      else map_of (fst (process_and_send now results state)) (get_issue_id r) = Some data \<and>
           (\<forall>(d, as)\<in>set (digests now results state). \<forall>a\<in>set as.
              get_issue_id a \<noteq> get_issue_id r)) \<and>
     (last_sent data = now - 86401000000 \<longrightarrow>
        map_of (fst (process_and_send now results state)) (get_issue_id r) =
          Some (data\<lparr>count := count data + 1, last_sent := now\<rparr>) \<and>
        (\<exists>d as a. (d, as) \<in> set (digests now results state) \<and> a \<in> set as \<and>
                  get_issue_id a = get_issue_id r \<and> alert_count a = Some (count data + 1))) \<and>
     (last_sent data = now - 86399000000 \<longrightarrow>
        map_of (fst (process_and_send now results state)) (get_issue_id r) = Some data \<and>
        (\<forall>(d, as)\<in>set (digests now results state). \<forall>a\<in>set as.
           get_issue_id a \<noteq> get_issue_id r))"
proof -
  assume r: "r \<in> set results" and n: "non_ok r" and d: "map_of state (get_issue_id r) = Some data"
  let ?k = "get_issue_id r"
  let ?resent = "map_of (fst (process_and_send now results state)) ?k =
             Some (data\<lparr>count := count data + 1, last_sent := now\<rparr>) \<and>
           (\<exists>d as a. (d, as) \<in> set (digests now results state) \<and> a \<in> set as \<and>
                     get_issue_id a = ?k \<and> alert_count a = Some (count data + 1))"
  let ?snoozed = "map_of (fst (process_and_send now results state)) ?k = Some data \<and>
           (\<forall>(d, as)\<in>set (digests now results state). \<forall>a\<in>set as. get_issue_id a \<noteq> ?k)"
  have h: "hours24 = 86400000000" by (simp add: hours24_def)
  have k: "?k \<in> issue_ids results" using r n by (auto simp: issue_ids_def)
  have look: "map_of (fst (process_and_send now results state)) ?k = Some (refresh now data)"
    using k d by (simp add: state_lookup)
  have resent: ?resent if "now - last_sent data > 86400000000"
  proof -
    from that have st: "stale now data" by (simp add: stale_def h)
    then have "eligible now state ?k (count data + 1)" using d by (simp add: eligible_def)
    from alerts_complete [OF k this] obtain a where
      a: "a \<in> set (alerts_to_send now results state)" "get_issue_id a = ?k"
         "alert_count a = Some (count data + 1)" by blast
    from a(1) obtain dm as where "(dm, as) \<in> set (digests now results state)" "a \<in> set as"
      using digests_entry [of now results state a] by blast
    with a(2,3) have "\<exists>d as a. (d, as) \<in> set (digests now results state) \<and> a \<in> set as \<and>
                     get_issue_id a = ?k \<and> alert_count a = Some (count data + 1)" by blast
    then show ?thesis using look st by (simp add: refresh_def)
  qed
  have snoozed: ?snoozed if "\<not> now - last_sent data > 86400000000"
  proof -
    from that have st: "\<not> stale now data" by (simp add: stale_def h)
    have none: "get_issue_id a \<noteq> ?k" if "(dm, as) \<in> set (digests now results state)" "a \<in> set as"
      for dm as a
    proof
      assume e: "get_issue_id a = ?k"
      have "a \<in> set (alerts_to_send now results state)"
        using that digests_entry [of now results state a] by blast
      from alerts_sound [OF this] obtain r' c where
        "a = r'\<lparr>alert_count := Some c\<rparr>" "eligible now state (get_issue_id r') c" by blast
      with e have "eligible now state ?k c" by simp
      with d st show False by (simp add: eligible_def)
    qed
    then have "\<forall>(d, as)\<in>set (digests now results state). \<forall>a\<in>set as. get_issue_id a \<noteq> ?k"
      by blast
    then show ?thesis using look st by (simp add: refresh_def)
  qed
  have main: "if now - last_sent data > 86400000000 then ?resent else ?snoozed"
    using resent snoozed by (cases "now - last_sent data > 86400000000") simp_all
  have after: "last_sent data = now - 86401000000 \<longrightarrow> ?resent"
  proof
    assume "last_sent data = now - 86401000000"
    then have "now - last_sent data > 86400000000" by simp
    then show ?resent by (rule resent)
  qed
  have before: "last_sent data = now - 86399000000 \<longrightarrow> ?snoozed"
  proof
    assume "last_sent data = now - 86399000000"
    then have "\<not> now - last_sent data > 86400000000" by simp
    then show ?snoozed by (rule snoozed)
  qed
  from main after before show ?thesis by (intro conjI)
qed

definition day_old_state :: "int \<Rightarrow> issue_state" where
  "day_old_state sent =
     [(''a.com:ssl'', \<lparr>first_seen = 0, last_sent = sent, count = 2,
                       ir_monitor = ''ssl'', ir_domain = ''a.com''\<rparr>)]"

theorem resend_after_24h_witness:
  "sample_result ''a.com'' ''ssl'' ''warning'' \<in> set sample_results \<and>
   non_ok (sample_result ''a.com'' ''ssl'' ''warning'') \<and>
   map_of (day_old_state 1000000) (get_issue_id (sample_result ''a.com'' ''ssl'' ''warning'')) =
     Some \<lparr>first_seen = 0, last_sent = 1000000, count = 2, ir_monitor = ''ssl'', ir_domain = ''a.com''\<rparr> \<and>
   map_of (fst (process_and_send 86402000000 sample_results (day_old_state 1000000)))
     (get_issue_id (sample_result ''a.com'' ''ssl'' ''warning'')) =
     Some \<lparr>first_seen = 0, last_sent = 86402000000, count = 3,
           ir_monitor = ''ssl'', ir_domain = ''a.com''\<rparr> \<and>
   map_of (fst (process_and_send 86400000000 sample_results (day_old_state 1000000)))
     (get_issue_id (sample_result ''a.com'' ''ssl'' ''warning'')) =
     Some \<lparr>first_seen = 0, last_sent = 1000000, count = 2, ir_monitor = ''ssl'', ir_domain = ''a.com''\<rparr> \<and>
   map_of (fst (process_and_send 86401000000 sample_results (day_old_state 1000000)))
     (get_issue_id (sample_result ''a.com'' ''ssl'' ''warning'')) =
     Some \<lparr>first_seen = 0, last_sent = 1000000, count = 2, ir_monitor = ''ssl'', ir_domain = ''a.com''\<rparr> \<and>
   map_of (fst (process_and_send 86401000001 sample_results (day_old_state 1000000)))
     (get_issue_id (sample_result ''a.com'' ''ssl'' ''warning'')) =
     Some \<lparr>first_seen = 0, last_sent = 86401000001, count = 3,
           ir_monitor = ''ssl'', ir_domain = ''a.com''\<rparr>"
proof -
  let ?r = "sample_result ''a.com'' ''ssl'' ''warning''"
  let ?d = "\<lparr>first_seen = 0, last_sent = 1000000, count = 2, ir_monitor = ''ssl'', ir_domain = ''a.com''\<rparr>"
  have a: "?r \<in> set sample_results" by (simp add: sample_results_def)
  have b: "non_ok ?r" by (simp add: non_ok_def sample_result_def)
  have c: "map_of (day_old_state 1000000) (get_issue_id ?r) = Some ?d"
    by (simp add: day_old_state_def get_issue_id_def sample_result_def)
  from resend_after_24h [OF a b c, of 86402000000]
  have 1: "map_of (fst (process_and_send 86402000000 sample_results (day_old_state 1000000)))
     (get_issue_id ?r) =
     Some \<lparr>first_seen = 0, last_sent = 86402000000, count = 3,
           ir_monitor = ''ssl'', ir_domain = ''a.com''\<rparr>"
    by simp
  from resend_after_24h [OF a b c, of 86400000000]
  have 2: "map_of (fst (process_and_send 86400000000 sample_results (day_old_state 1000000)))
     (get_issue_id ?r) = Some ?d"
    by simp
  from resend_after_24h [OF a b c, of 86401000000]
  have 3: "map_of (fst (process_and_send 86401000000 sample_results (day_old_state 1000000)))
     (get_issue_id ?r) = Some ?d"
    by simp
  have 4: "map_of (fst (process_and_send 86401000001 sample_results (day_old_state 1000000)))
     (get_issue_id ?r) =
     Some \<lparr>first_seen = 0, last_sent = 86401000001, count = 3,
           ir_monitor = ''ssl'', ir_domain = ''a.com''\<rparr>"
    by code_simp
  from a b c 1 2 3 4 show ?thesis by blast
qed

subsection \<open>An issue that is resolved and comes back\<close>

text \<open>
  Claim C6. If no result of cycle N reports a pair as non-ok (it reports ok, or is absent),
  the pair has no Issue Record after that cycle; if the pair is non-ok in the next cycle, it
  is New there: its record is created with count 1 at the instant of that cycle, and a
  digest has an entry for the pair with count 1, annotated \<open>(New)\<close>.
\<close>

theorem resolved_then_recurring_is_new:
  "(\<forall>r\<in>set results1. non_ok r \<longrightarrow> get_issue_id r \<noteq> k) \<Longrightarrow>
   r \<in> set results2 \<Longrightarrow> non_ok r \<Longrightarrow> get_issue_id r = k \<Longrightarrow>
     map_of (fst (process_and_send now1 results1 state)) k = None \<and>
     (\<exists>data. map_of (fst (process_and_send now2 results2
                            (fst (process_and_send now1 results1 state)))) k = Some data \<and>
             count data = 1 \<and> first_seen data = now2 \<and> last_sent data = now2) \<and>
     (\<exists>d as a. (d, as) \<in> set (digests now2 results2 (fst (process_and_send now1 results1 state))) \<and>
               a \<in> set as \<and> get_issue_id a = k \<and> alert_count a = Some 1 \<and>
               annotation a = ''(New)'')"
proof -
  assume ok: "\<forall>r\<in>set results1. non_ok r \<longrightarrow> get_issue_id r \<noteq> k"
    and r: "r \<in> set results2" and n: "non_ok r" and id: "get_issue_id r = k"
  define st1 where "st1 = fst (process_and_send now1 results1 state)"
  have "k \<notin> issue_ids results1" using ok by (auto simp: issue_ids_def)
  then have gone: "map_of st1 k = None" unfolding st1_def by (simp add: state_lookup)
  have k: "k \<in> issue_ids results2" using r n id by (auto simp: issue_ids_def)
  have rec: "\<exists>data. map_of (fst (process_and_send now2 results2 st1)) k = Some data \<and>
             count data = 1 \<and> first_seen data = now2 \<and> last_sent data = now2"
    using k gone by (simp add: state_lookup new_record_def)
  have "eligible now2 st1 k 1" using gone by (simp add: eligible_def)
  from alerts_complete [OF k this] obtain a where
    a: "a \<in> set (alerts_to_send now2 results2 st1)" "get_issue_id a = k" "alert_count a = Some 1"
    by blast
  from a(1) obtain dm as where "(dm, as) \<in> set (digests now2 results2 st1)" "a \<in> set as"
    using digests_entry [of now2 results2 st1 a] by blast
  moreover have "annotation a = ''(New)''" using a(3) by (simp add: annotation_def)
  ultimately have "\<exists>d as a. (d, as) \<in> set (digests now2 results2 st1) \<and>
               a \<in> set as \<and> get_issue_id a = k \<and> alert_count a = Some 1 \<and>
               annotation a = ''(New)''"
    using a(2,3) by blast
  then show ?thesis using gone rec unfolding st1_def by blast
qed

definition recovered_results :: "check_result list" where
  "recovered_results = [sample_result ''a.com'' ''ssl'' ''ok'']"

theorem resolved_then_recurring_is_new_witness:
  "\<not> non_ok (sample_result ''a.com'' ''ssl'' ''ok'') \<and>
   sample_result ''a.com'' ''ssl'' ''warning'' \<in> set sample_results \<and>
   non_ok (sample_result ''a.com'' ''ssl'' ''warning'') \<and>
   get_issue_id (sample_result ''a.com'' ''ssl'' ''warning'') = ''a.com:ssl'' \<and>
   map_of (day_old_state 0) ''a.com:ssl'' =
     Some \<lparr>first_seen = 0, last_sent = 0, count = 2, ir_monitor = ''ssl'', ir_domain = ''a.com''\<rparr> \<and>
   map_of (fst (process_and_send 10 recovered_results (day_old_state 0))) ''a.com:ssl'' = None \<and>
   map_of (fst (process_and_send 20 sample_results
                  (fst (process_and_send 10 recovered_results (day_old_state 0))))) ''a.com:ssl'' =
     Some \<lparr>first_seen = 20, last_sent = 20, count = 1, ir_monitor = ''ssl'', ir_domain = ''a.com''\<rparr>"
proof -
  let ?r = "sample_result ''a.com'' ''ssl'' ''warning''"
  have h: "\<forall>r\<in>set recovered_results. non_ok r \<longrightarrow> get_issue_id r \<noteq> ''a.com:ssl''"
    by (simp add: recovered_results_def non_ok_def sample_result_def)
  have a: "?r \<in> set sample_results" by (simp add: sample_results_def)
  have b: "non_ok ?r" by (simp add: non_ok_def sample_result_def)
  have c: "get_issue_id ?r = ''a.com:ssl''" by (simp add: get_issue_id_def sample_result_def)
  have d: "\<not> non_ok (sample_result ''a.com'' ''ssl'' ''ok'')" by (simp add: non_ok_def sample_result_def)
  have e: "map_of (day_old_state 0) ''a.com:ssl'' =
     Some \<lparr>first_seen = 0, last_sent = 0, count = 2, ir_monitor = ''ssl'', ir_domain = ''a.com''\<rparr>"
    by (simp add: day_old_state_def)
  have f: "map_of (fst (process_and_send 20 sample_results
                  (fst (process_and_send 10 recovered_results (day_old_state 0))))) ''a.com:ssl'' =
     Some \<lparr>first_seen = 20, last_sent = 20, count = 1, ir_monitor = ''ssl'', ir_domain = ''a.com''\<rparr>"
    by code_simp
  from resolved_then_recurring_is_new [OF h a b c, of 10 "day_old_state 0" 20]
  have g: "map_of (fst (process_and_send 10 recovered_results (day_old_state 0))) ''a.com:ssl'' = None"
    by blast
  from a b c d e f g show ?thesis by blast
qed

subsection \<open>The digests\<close>

text \<open>The order the claim words: critical entries before the others.\<close>

definition spec_severity_rank :: "check_result \<Rightarrow> nat" where
  "spec_severity_rank a = (if status a = Some ''critical'' then 0 else 1)"

definition spec_severity_sorted :: "check_result list \<Rightarrow> bool" where
  "spec_severity_sorted as = sorted (map spec_severity_rank as)"

definition unsorted_results :: "check_result list" where
  "unsorted_results =
     [sample_result ''a.com'' ''ssl'' ''warning'', sample_result ''a.com'' ''blacklist'' ''critical'']"

definition negative_count_state :: issue_state where
  "negative_count_state =
     [(''a.com:ssl'', \<lparr>first_seen = 0, last_sent = 0, count = - 1,
                       ir_monitor = ''ssl'', ir_domain = ''a.com''\<rparr>)]"

text \<open>
  Claim C2 fails as stated. Two new issues of one domain, a warning of the \<open>ssl\<close> monitor
  reported before a critical of the \<open>blacklist\<close> monitor, make one digest whose entries,
  and the lines built for them, stand in that order: the warning before the critical,
  \<open>ssl\<close> before \<open>blacklist\<close>. And a resend on a stored count of \<open>-1\<close> gives an entry of
  count 0, which is not 1, annotated \<open>(New)\<close>.
\<close>

theorem digest_order_counterexample:
  "map fst (digests 0 unsorted_results []) = [''a.com''] \<and>
   map (\<lambda>a. (status a, monitor a)) (snd (hd (digests 0 unsorted_results []))) =
     [(Some ''warning'', ''ssl''), (Some ''critical'', ''blacklist'')] \<and>
   \<not> spec_severity_sorted (snd (hd (digests 0 unsorted_results []))) \<and>
   digest_lines ''a.com'' (snd (hd (digests 0 unsorted_results []))) =
     [''Found 2 issues for **a.com**:'',
      icon_warning @ '' **SSL**: ssl is warning (New)'',
      icon_red @ '' **BLACKLIST**: blacklist is critical (New)''] \<and>
   map alert_count
     (snd (hd (digests 86400000001 [sample_result ''a.com'' ''ssl'' ''warning''] negative_count_state))) =
     [Some 0] \<and>
   digest_lines ''a.com''
     (snd (hd (digests 86400000001 [sample_result ''a.com'' ''ssl'' ''warning''] negative_count_state))) =
     [''Found 1 issues for **a.com**:'', icon_warning @ '' **SSL**: ssl is warning (New)'']"
  by code_simp

lemma alert_lines_spelled:
  "alert_lines a =
     ((if status a = Some ''critical'' then icon_red else icon_warning) @ '' **'' @
      upper (monitor a) @ ''**: '' @
      (case message a of None \<Rightarrow> ''Unknown Error'' | Some m \<Rightarrow> m) @ '' '' @
      (case alert_count a of
         Some c \<Rightarrow> if 1 < c then ''(Repeated '' @ str_int c @ ''x)'' else ''(New)''
       | None \<Rightarrow> ''(New)'')) #
     detail_lines a"
  by (simp add: alert_lines_def annotation_def Let_def split: option.splits)

lemma alerts_count_positive:
  assumes "\<forall>(k, data)\<in>set st. 0 \<le> count data" and "a \<in> set (alerts_to_send now rs st)"
  shows "\<exists>c. alert_count a = Some c \<and> 1 \<le> c"
proof -
  from alerts_sound [OF assms(2)] obtain r c where
    a: "a = r\<lparr>alert_count := Some c\<rparr>" and e: "eligible now st (get_issue_id r) c" by blast
  have "1 \<le> c"
  proof (cases "map_of st (get_issue_id r)")
    case None
    with e show ?thesis by (simp add: eligible_def)
  next
    case (Some data)
    then have "(get_issue_id r, data) \<in> set st" by (rule map_of_SomeD)
    with assms(1) have "0 \<le> count data" by blast
    with e Some show ?thesis by (simp add: eligible_def)
  qed
  then show ?thesis unfolding a by simp
qed

text \<open>
  Claim C2, as amended. In every cycle there is exactly one digest (domain group) per domain
  that has a New or Resend entry and none for any other domain; a digest holds all the New
  and Resend entries of its domain and is never empty; its entries, and the lines built for
  them, stand in the order of the result sequence (no sorting is applied); the entries are
  exactly the pairs that are New (count 1) or Resend (count incremented); the line built for
  an entry ends with \<open>(Repeated Nx)\<close> when its count \<open>N\<close> is greater than 1 and with
  \<open>(New)\<close> otherwise; and when no stored count is negative, that is \<open>(New)\<close> when the
  count equals 1 and \<open>(Repeated Nx)\<close> otherwise.
\<close>

theorem digests_grouped_in_result_order:
  "distinct (map fst (digests now results state)) \<and>
   (\<forall>(d, as)\<in>set (digests now results state).
      as \<noteq> [] \<and> as = filter (\<lambda>a. domain a = d) (alerts_to_send now results state)) \<and>
   (\<forall>a\<in>set (alerts_to_send now results state).
      \<exists>as. (domain a, as) \<in> set (digests now results state) \<and> a \<in> set as) \<and>
   subseq (map (\<lambda>a. a\<lparr>alert_count := None\<rparr>) (alerts_to_send now results state))
          (map (\<lambda>r. r\<lparr>alert_count := None\<rparr>) results) \<and>
   (\<forall>a\<in>set (alerts_to_send now results state).
      \<exists>c. non_ok a \<and> alert_count a = Some c \<and> eligible now state (get_issue_id a) c) \<and>
   (\<forall>k\<in>issue_ids results. \<forall>c. eligible now state k c \<longrightarrow>
      (\<exists>a\<in>set (alerts_to_send now results state). get_issue_id a = k \<and> alert_count a = Some c)) \<and>
   (\<forall>(d, as)\<in>set (digests now results state).
      digest_lines d as =
        (''Found '' @ str_nat (length as) @ '' issues for **'' @ d @ ''**:'') #
        concat (map (\<lambda>a.
          ((if status a = Some ''critical'' then icon_red else icon_warning) @ '' **'' @
           upper (monitor a) @ ''**: '' @
           (case message a of None \<Rightarrow> ''Unknown Error'' | Some m \<Rightarrow> m) @ '' '' @
           (case alert_count a of
              Some c \<Rightarrow> if 1 < c then ''(Repeated '' @ str_int c @ ''x)'' else ''(New)''
            | None \<Rightarrow> ''(New)'')) #
          detail_lines a) as)) \<and>
   ((\<forall>(k, data)\<in>set state. 0 \<le> count data) \<longrightarrow>
    (\<forall>(d, as)\<in>set (digests now results state).
       digest_lines d as =
         (''Found '' @ str_nat (length as) @ '' issues for **'' @ d @ ''**:'') #
         concat (map (\<lambda>a.
           ((if status a = Some ''critical'' then icon_red else icon_warning) @ '' **'' @
            upper (monitor a) @ ''**: '' @
            (case message a of None \<Rightarrow> ''Unknown Error'' | Some m \<Rightarrow> m) @ '' '' @
            (if alert_count a = Some 1 then ''(New)''
             else ''(Repeated '' @ str_int (the (alert_count a)) @ ''x)'')) #
           detail_lines a) as)))"
proof -
  have 2: "distinct (map fst (digests now results state))" by (rule digests_distinct)
  have 3: "\<forall>(d, as)\<in>set (digests now results state).
      as \<noteq> [] \<and> as = filter (\<lambda>a. domain a = d) (alerts_to_send now results state)"
    using digests_member [of _ _ now results state] by blast
  have 4: "\<forall>a\<in>set (alerts_to_send now results state).
      \<exists>as. (domain a, as) \<in> set (digests now results state) \<and> a \<in> set as"
  proof
    fix a assume a: "a \<in> set (alerts_to_send now results state)"
    let ?as = "filter (\<lambda>x. domain x = domain a) (alerts_to_send now results state)"
    have m: "a \<in> set ?as" using a by simp
    then have "?as \<noteq> []" by (rule ne_Nil_set)
    then have "(domain a, ?as) \<in> set (digests now results state)" by (simp add: digests_member)
    with m show "\<exists>as. (domain a, as) \<in> set (digests now results state) \<and> a \<in> set as" by blast
  qed
  have 5: "subseq (map (\<lambda>a. a\<lparr>alert_count := None\<rparr>) (alerts_to_send now results state))
          (map (\<lambda>r. r\<lparr>alert_count := None\<rparr>) results)"
    using loop_alerts_order [of now results state "[]" "[]"] by (auto simp: alerts_to_send_def)
  have 6: "\<forall>a\<in>set (alerts_to_send now results state).
      \<exists>c. non_ok a \<and> alert_count a = Some c \<and> eligible now state (get_issue_id a) c"
  proof
    fix a assume "a \<in> set (alerts_to_send now results state)"
    from alerts_sound [OF this] obtain r c where
      "non_ok r" "a = r\<lparr>alert_count := Some c\<rparr>" "eligible now state (get_issue_id r) c" by blast
    then show "\<exists>c. non_ok a \<and> alert_count a = Some c \<and> eligible now state (get_issue_id a) c"
      by auto
  qed
  have 7: "\<forall>k\<in>issue_ids results. \<forall>c. eligible now state k c \<longrightarrow>
      (\<exists>a\<in>set (alerts_to_send now results state). get_issue_id a = k \<and> alert_count a = Some c)"
    using alerts_complete [of _ results now state] by blast
  have 8: "\<forall>(d, as)\<in>set (digests now results state).
      digest_lines d as =
        (''Found '' @ str_nat (length as) @ '' issues for **'' @ d @ ''**:'') #
        concat (map (\<lambda>a.
          ((if status a = Some ''critical'' then icon_red else icon_warning) @ '' **'' @
           upper (monitor a) @ ''**: '' @
           (case message a of None \<Rightarrow> ''Unknown Error'' | Some m \<Rightarrow> m) @ '' '' @
           (case alert_count a of
              Some c \<Rightarrow> if 1 < c then ''(Repeated '' @ str_int c @ ''x)'' else ''(New)''
            | None \<Rightarrow> ''(New)'')) #
          detail_lines a) as)"
  proof -
    have "alert_lines = (\<lambda>a.
          ((if status a = Some ''critical'' then icon_red else icon_warning) @ '' **'' @
           upper (monitor a) @ ''**: '' @
           (case message a of None \<Rightarrow> ''Unknown Error'' | Some m \<Rightarrow> m) @ '' '' @
           (case alert_count a of
              Some c \<Rightarrow> if 1 < c then ''(Repeated '' @ str_int c @ ''x)'' else ''(New)''
            | None \<Rightarrow> ''(New)'')) #
          detail_lines a)"
      by (rule ext) (rule alert_lines_spelled)
    then show ?thesis unfolding digest_lines_def by (simp only: split_paired_all) simp
  qed
  have 9: "(\<forall>(k, data)\<in>set state. 0 \<le> count data) \<longrightarrow>
    (\<forall>(d, as)\<in>set (digests now results state).
       digest_lines d as =
         (''Found '' @ str_nat (length as) @ '' issues for **'' @ d @ ''**:'') #
         concat (map (\<lambda>a.
           ((if status a = Some ''critical'' then icon_red else icon_warning) @ '' **'' @
            upper (monitor a) @ ''**: '' @
            (case message a of None \<Rightarrow> ''Unknown Error'' | Some m \<Rightarrow> m) @ '' '' @
            (if alert_count a = Some 1 then ''(New)''
             else ''(Repeated '' @ str_int (the (alert_count a)) @ ''x)'')) #
           detail_lines a) as))"
  proof (intro impI ballI, clarify)
    fix d as
    assume pos: "\<forall>(k, data)\<in>set state. 0 \<le> count data"
      and mem: "(d, as) \<in> set (digests now results state)"
    have sub: "set as \<subseteq> set (alerts_to_send now results state)"
      using mem by (auto simp: digests_member)
    have "map alert_lines as =
          map (\<lambda>a.
           ((if status a = Some ''critical'' then icon_red else icon_warning) @ '' **'' @
            upper (monitor a) @ ''**: '' @
            (case message a of None \<Rightarrow> ''Unknown Error'' | Some m \<Rightarrow> m) @ '' '' @
            (if alert_count a = Some 1 then ''(New)''
             else ''(Repeated '' @ str_int (the (alert_count a)) @ ''x)'')) #
           detail_lines a) as"
    proof (rule map_cong [OF refl])
      fix a assume "a \<in> set as"
      with sub have "a \<in> set (alerts_to_send now results state)" by blast
      from alerts_count_positive [OF pos this] obtain c where
        c: "alert_count a = Some c" "1 \<le> c" by blast
      then show "alert_lines a =
           ((if status a = Some ''critical'' then icon_red else icon_warning) @ '' **'' @
            upper (monitor a) @ ''**: '' @
            (case message a of None \<Rightarrow> ''Unknown Error'' | Some m \<Rightarrow> m) @ '' '' @
            (if alert_count a = Some 1 then ''(New)''
             else ''(Repeated '' @ str_int (the (alert_count a)) @ ''x)'')) #
           detail_lines a"
        by (auto simp: alert_lines_spelled)
    qed
    then have "concat (map alert_lines as) = concat (map (\<lambda>a.
           ((if status a = Some ''critical'' then icon_red else icon_warning) @ '' **'' @
            upper (monitor a) @ ''**: '' @
            (case message a of None \<Rightarrow> ''Unknown Error'' | Some m \<Rightarrow> m) @ '' '' @
            (if alert_count a = Some 1 then ''(New)''
             else ''(Repeated '' @ str_int (the (alert_count a)) @ ''x)'')) #
           detail_lines a) as)"
      by (rule arg_cong)
    then show "digest_lines d as =
         (''Found '' @ str_nat (length as) @ '' issues for **'' @ d @ ''**:'') #
         concat (map (\<lambda>a.
           ((if status a = Some ''critical'' then icon_red else icon_warning) @ '' **'' @
            upper (monitor a) @ ''**: '' @
            (case message a of None \<Rightarrow> ''Unknown Error'' | Some m \<Rightarrow> m) @ '' '' @
            (if alert_count a = Some 1 then ''(New)''
             else ''(Repeated '' @ str_int (the (alert_count a)) @ ''x)'')) #
           detail_lines a) as)"
      unfolding digest_lines_def by (simp only:)
  qed
  from 2 3 4 5 6 7 8 9 show ?thesis by (intro conjI)
qed

theorem digests_grouped_in_result_order_witness:
  "list_all (\<lambda>(k, data). 0 \<le> count data) (day_old_state 0) \<and>
   digests 86400000001 sample_results (day_old_state 0) =
     [(''a.com'', [(sample_result ''a.com'' ''ssl'' ''warning'')\<lparr>alert_count := Some 3\<rparr>,
                   (sample_result ''a.com'' ''blacklist'' ''critical'')\<lparr>alert_count := Some 1\<rparr>]),
      (''b.org'', [(sample_result ''b.org'' ''ssl'' ''error'')\<lparr>alert_count := Some 1\<rparr>])] \<and>
   distinct (map fst (digests 86400000001 sample_results (day_old_state 0))) \<and>
   digest_lines ''a.com''
     [(sample_result ''a.com'' ''ssl'' ''warning'')\<lparr>alert_count := Some 3\<rparr>,
      (sample_result ''a.com'' ''blacklist'' ''critical'')\<lparr>alert_count := Some 1\<rparr>] =
     [''Found 2 issues for **a.com**:'',
      icon_warning @ '' **SSL**: ssl is warning (Repeated 3x)'',
      icon_red @ '' **BLACKLIST**: blacklist is critical (New)'']"
proof -
  let ?as = "[(sample_result ''a.com'' ''ssl'' ''warning'')\<lparr>alert_count := Some 3\<rparr>,
              (sample_result ''a.com'' ''blacklist'' ''critical'')\<lparr>alert_count := Some 1\<rparr>]"
  have l: "list_all (\<lambda>(k, data). 0 \<le> count data) (day_old_state 0)"
    by (simp add: day_old_state_def)
  have h: "\<forall>(k, data)\<in>set (day_old_state 0). 0 \<le> count data"
    by (simp add: day_old_state_def)
  have g: "digests 86400000001 sample_results (day_old_state 0) =
     [(''a.com'', ?as),
      (''b.org'', [(sample_result ''b.org'' ''ssl'' ''error'')\<lparr>alert_count := Some 1\<rparr>])]"
    by code_simp
  then have m: "(''a.com'', ?as) \<in> set (digests 86400000001 sample_results (day_old_state 0))"
    by simp
  note t = digests_grouped_in_result_order [of 86400000001 sample_results "day_old_state 0"]
  from t have d: "distinct (map fst (digests 86400000001 sample_results (day_old_state 0)))"
    by blast
  from t h have "\<forall>(d, as)\<in>set (digests 86400000001 sample_results (day_old_state 0)).
       digest_lines d as =
         (''Found '' @ str_nat (length as) @ '' issues for **'' @ d @ ''**:'') #
         concat (map (\<lambda>a.
           ((if status a = Some ''critical'' then icon_red else icon_warning) @ '' **'' @
            upper (monitor a) @ ''**: '' @
            (case message a of None \<Rightarrow> ''Unknown Error'' | Some m \<Rightarrow> m) @ '' '' @
            (if alert_count a = Some 1 then ''(New)''
             else ''(Repeated '' @ str_int (the (alert_count a)) @ ''x)'')) #
           detail_lines a) as)"
    by blast
  with m have e: "digest_lines ''a.com'' ?as =
         (''Found '' @ str_nat (length ?as) @ '' issues for **'' @ ''a.com'' @ ''**:'') #
         concat (map (\<lambda>a.
           ((if status a = Some ''critical'' then icon_red else icon_warning) @ '' **'' @
            upper (monitor a) @ ''**: '' @
            (case message a of None \<Rightarrow> ''Unknown Error'' | Some m \<Rightarrow> m) @ '' '' @
            (if alert_count a = Some 1 then ''(New)''
             else ''(Repeated '' @ str_int (the (alert_count a)) @ ''x)'')) #
           detail_lines a) ?as)"
    by blast
  have v: "(''Found '' @ str_nat (length ?as) @ '' issues for **'' @ ''a.com'' @ ''**:'') #
         concat (map (\<lambda>a.
           ((if status a = Some ''critical'' then icon_red else icon_warning) @ '' **'' @
            upper (monitor a) @ ''**: '' @
            (case message a of None \<Rightarrow> ''Unknown Error'' | Some m \<Rightarrow> m) @ '' '' @
            (if alert_count a = Some 1 then ''(New)''
             else ''(Repeated '' @ str_int (the (alert_count a)) @ ''x)'')) #
           detail_lines a) ?as) =
     [''Found 2 issues for **a.com**:'',
      icon_warning @ '' **SSL**: ssl is warning (Repeated 3x)'',
      icon_red @ '' **BLACKLIST**: blacklist is critical (New)'']"
    by code_simp
  from e v have r: "digest_lines ''a.com'' ?as =
     [''Found 2 issues for **a.com**:'',
      icon_warning @ '' **SSL**: ssl is warning (Repeated 3x)'',
      icon_red @ '' **BLACKLIST**: blacklist is critical (New)'']"
    by (rule trans)
  from l g d r show ?thesis by (intro conjI)
qed

end
